theory Spec2Isabelle
  imports Complex_Main "HOL-Library.Word" "HOL-Library.Monad_Syntax"
begin

section \<open>Data model of VectorFieldsnPartcFlow.c\<close>

text \<open>
  The program is a single C file: a hash-based vector field
  (\<open>GetVectorFieldForce\<close>) and a fixed pool of particles that the main loop
  spawns, advances and draws once per frame.

  Conventions of the embedding:
  \<^item> a C \<open>float\<close> is a \<open>real\<close>, and \<open>cosf\<close>, \<open>sinf\<close> are \<open>cos\<close>, \<open>sin\<close>;
    raylib's \<open>PI\<close> is \<open>pi\<close>. Infinities and NaN are outside the model;
  \<^item> the rounding of binary32 arithmetic is modelled wherever a \<open>float\<close>
    expression is converted to an integer type, because truncation is not
    continuous and a rounding error of one unit in the last place can change the
    integer: on lines 32, 33 and 117 to 122 every float operation is the exact
    operation followed by \<open>fl32\<close>, rounding to the nearest binary32 value with
    ties to even, each operation being evaluated and rounded in binary32 on
    its own (the evaluation method of C on the usual targets, without fused
    operations). Where a value is only stored (velocity, position, life) the
    operations are the exact ones;
  \<^item> \<open>unsigned int\<close> is \<open>32 word\<close> and \<open>unsigned char\<close> is \<open>8 word\<close>, with
    the wrap-around of the word operations;
  \<^item> a signed \<open>int\<close> value is an \<open>int\<close> that must lie in the 32-bit range; an
    operation whose result leaves the range has no defined behaviour in C and
    is \<open>None\<close> here;
  \<^item> a conversion from \<open>float\<close> to an integer type discards the fraction
    (truncation toward zero) and has no defined behaviour when the integral
    part is not representable in the target type: it is \<open>None\<close> there;
  \<^item> the pool \<open>Particle particles[MAX_PARTICLES]\<close> is a list whose length is
    \<open>MAX_PARTICLES\<close>; the loops of the source run over the indices
    \<open>0 ..< MAX_PARTICLES\<close>.
\<close>

definition MAX_PARTICLES :: nat where
  "MAX_PARTICLES = 1000"


definition FLOW_STRENGTH :: real where
  "FLOW_STRENGTH = 8 / 10"


definition VECTOR_GRID_SIZE :: int where
  "VECTOR_GRID_SIZE = 40"

definition PI :: real where
  "PI = pi"

record Vector2 =
  vec_x :: real
  vec_y :: real

record Color =
  col_r :: "8 word"
  col_g :: "8 word"
  col_b :: "8 word"
  col_a :: "8 word"

record Particle =
  position :: Vector2
  velocity :: Vector2
  color :: Color
  life :: real
  active :: bool

subsection \<open>Rounding to binary32\<close>

text \<open>
  \<open>round_even\<close> rounds a real to the nearest integer, a tie going to the even
  one. A binary32 value is an integer multiple of a power of two: for
  \<open>x \<noteq> 0\<close> with \<open>2^k \<le> \<bar>x\<bar> < 2^(k+1)\<close> the spacing of the binary32 values
  around \<open>x\<close> is \<open>2^(k-23)\<close>, and \<open>2^-149\<close> in the subnormal range
  (\<open>ulp_exponent\<close>). \<open>fl32 x\<close> is the multiple of that spacing nearest to
  \<open>x\<close>. Overflow is not modelled: beyond the largest binary32 value
  \<open>fl32\<close> keeps rounding to 24 significant bits where the machine gives an
  infinity; a conversion to an integer type is undefined for both.
\<close>

definition round_even :: "real \<Rightarrow> int" where
  "round_even r =
     (let f = \<lfloor>r\<rfloor>; d = r - of_int f
      in if d < 1 / 2 then f else if 1 / 2 < d then f + 1 else if even f then f else f + 1)"

definition ulp_exponent :: "real \<Rightarrow> int" where
  "ulp_exponent x = max (\<lfloor>log 2 \<bar>x\<bar>\<rfloor> - 23) (- 149)"

definition fl32 :: "real \<Rightarrow> real" where
  "fl32 x =
     (if x = 0 then 0
      else of_int (round_even (x / 2 powi ulp_exponent x)) * 2 powi ulp_exponent x)"

subsection \<open>Conversions and signed arithmetic\<close>

definition c_trunc :: "real \<Rightarrow> int" where
  "c_trunc v = (if 0 \<le> v then \<lfloor>v\<rfloor> else \<lceil>v\<rceil>)"

definition int_range :: "int \<Rightarrow> bool" where
  "int_range n \<longleftrightarrow> - (2 ^ 31) \<le> n \<and> n < 2 ^ 31"


definition float_to_int :: "real \<Rightarrow> int option" where
  "float_to_int v = (let n = c_trunc v in if int_range n then Some n else None)"


definition int_result :: "int \<Rightarrow> int option" where
  "int_result n = (if int_range n then Some n else None)"

subsection \<open>The vector field\<close>

text \<open>
  Lines 32 to 41 of \<open>GetVectorFieldForce\<close>: the two cell indices, the seed and
  the angle. \<open>VECTOR_GRID_SIZE * 2\<close> is an \<open>int\<close> converted to \<open>float\<close> for
  the division, whose binary32 result is then converted to \<open>int\<close>;
  \<open>ix * 13 + iy * 23\<close> is signed arithmetic; \<open>seed * 99991\<close> and
  \<open>% 100000\<close> are unsigned.
\<close>

definition field_angle :: "real \<Rightarrow> real \<Rightarrow> real option" where
  "field_angle x y = do {
     ix \<leftarrow> float_to_int (fl32 (x / real_of_int (VECTOR_GRID_SIZE * 2)));
     iy \<leftarrow> float_to_int (fl32 (y / real_of_int (VECTOR_GRID_SIZE * 2)));
     a \<leftarrow> int_result (ix * 13);
     b \<leftarrow> int_result (iy * 23);
     s \<leftarrow> int_result (a + b);
     let seed = (word_of_int s :: 32 word);
     Some (real (unat ((seed * 99991) mod 100000)) / 100000 * 2 * PI)
   }"

definition GetVectorFieldForce :: "real \<Rightarrow> real \<Rightarrow> real \<Rightarrow> Vector2 option" where
  "GetVectorFieldForce x y time = do {
     angle \<leftarrow> field_angle x y;
     let force = \<lparr>vec_x = cos angle, vec_y = sin angle\<rparr>;
     let force = force\<lparr>vec_x := vec_x force * FLOW_STRENGTH\<rparr>;
     let force = force\<lparr>vec_y := vec_y force * FLOW_STRENGTH\<rparr>;
     Some force
   }"

subsection \<open>The particle pool\<close>

text \<open>
  Lines 60 to 63 of \<open>main\<close>: the pool is zero-initialised and every slot is
  marked inactive.
\<close>

definition initial_particles :: "Particle list" where
  "initial_particles =
     replicate MAX_PARTICLES
       \<lparr>position = \<lparr>vec_x = 0, vec_y = 0\<rparr>, velocity = \<lparr>vec_x = 0, vec_y = 0\<rparr>,
        color = \<lparr>col_r = 0, col_g = 0, col_b = 0, col_a = 0\<rparr>,
        life = 0, active = False\<rparr>"

subsection \<open>The emitter (lines 77 to 93)\<close>

text \<open>
  \<open>GetRandomValue\<close> belongs to raylib. It is modelled by the sequence \<open>rnd\<close>
  of the values that the successive calls \<open>GetRandomValue(-10, 10)\<close> return and
  by the number \<open>k\<close> of calls made so far; each spawn makes two calls. C does
  not fix the order of the two calls inside the initialiser; the model takes
  the order of the text, the first call for the x offset. The \<open>int\<close> offset is
  converted to \<open>float\<close> for the sum.

  \<open>spawn_scan\<close> is the inner loop over \<open>j\<close> with its \<open>break\<close>;
  \<open>spawn_from\<close> is the outer loop over \<open>i\<close>, whose bound is the literal 5
  in the source (\<open>Spawn\<close>).
\<close>

function spawn_scan ::
  "nat \<Rightarrow> Vector2 \<Rightarrow> (nat \<Rightarrow> int) \<Rightarrow> nat \<Rightarrow> Particle list \<Rightarrow> Particle list \<times> nat" where
  "spawn_scan j mousePos rnd k particles =
     (if j < MAX_PARTICLES then
        (if \<not> active (particles ! j) then
           (particles[j := (particles ! j)
              \<lparr>active := True,
               life := 1,
               position := \<lparr>vec_x = vec_x mousePos + real_of_int (rnd k),
                            vec_y = vec_y mousePos + real_of_int (rnd (k + 1))\<rparr>,
               velocity := \<lparr>vec_x = 0, vec_y = 0\<rparr>,
               color := \<lparr>col_r = 0, col_g = 180, col_b = 255, col_a = 255\<rparr>\<rparr>],
            k + 2)
         else spawn_scan (j + 1) mousePos rnd k particles)
      else (particles, k))"
  by pat_completeness auto
termination
  by (relation "measure (\<lambda>(j, mousePos, rnd, k, particles). MAX_PARTICLES - j)") auto

function spawn_from ::
  "nat \<Rightarrow> nat \<Rightarrow> Vector2 \<Rightarrow> (nat \<Rightarrow> int) \<Rightarrow> nat \<Rightarrow> Particle list \<Rightarrow> Particle list \<times> nat" where
  "spawn_from i count mousePos rnd k particles =
     (if i < count then
        (case spawn_scan 0 mousePos rnd k particles of
           (particles', k') \<Rightarrow> spawn_from (i + 1) count mousePos rnd k' particles')
      else (particles, k))"
  by pat_completeness auto
termination
  by (relation "measure (\<lambda>(i, count, mousePos, rnd, k, particles). count - i)") auto

definition Spawn ::
  "Vector2 \<Rightarrow> (nat \<Rightarrow> int) \<Rightarrow> nat \<Rightarrow> Particle list \<Rightarrow> Particle list \<times> nat" where
  "Spawn mousePos rnd k particles = spawn_from 0 5 mousePos rnd k particles"

subsection \<open>The update (lines 96 to 130)\<close>










subsection \<open>Drawing and counting (lines 160 to 171)\<close>




function count_from :: "nat \<Rightarrow> nat \<Rightarrow> Particle list \<Rightarrow> nat" where
  "count_from i active_particles particles =
     (if i < MAX_PARTICLES then
        count_from (i + 1)
          (if active (particles ! i) then active_particles + 1 else active_particles)
          particles
      else active_particles)"
  by pat_completeness auto
termination
  by (relation "measure (\<lambda>(i, active_particles, particles). MAX_PARTICLES - i)") auto

definition active_count :: "Particle list \<Rightarrow> nat" where
  "active_count particles = count_from 0 0 particles"

section \<open>Notions used to state the properties\<close>

text \<open>
  \<open>binary32 x\<close> says that the real \<open>x\<close> is a finite binary32 value, which
  every value of a \<open>float\<close> variable of the program is.
  \<open>grid_cell\<close> is the quantization of lines 32 and 33 for one coordinate.
  \<open>trunc_toward_zero\<close> and \<open>reference_angle\<close> follow the wording of the
  specification: truncation toward zero of the exact quotient, the seed as the
  unsigned 32-bit value of \<open>ix*13 + iy*23\<close>, the product wrapped modulo
  \<open>2^32\<close>, on unbounded integers with the reductions written out.
\<close>

definition binary32 :: "real \<Rightarrow> bool" where
  "binary32 x \<longleftrightarrow> fl32 x = x \<and> \<bar>x\<bar> < 2 ^ 128"

definition grid_cell :: "real \<Rightarrow> int option" where
  "grid_cell v = float_to_int (fl32 (v / real_of_int (VECTOR_GRID_SIZE * 2)))"

definition trunc_toward_zero :: "real \<Rightarrow> int" where
  "trunc_toward_zero v = (if v < 0 then - \<lfloor>- v\<rfloor> else \<lfloor>v\<rfloor>)"

definition reference_angle :: "real \<Rightarrow> real \<Rightarrow> real" where
  "reference_angle x y =
     (let ix = trunc_toward_zero (x / 80);
          iy = trunc_toward_zero (y / 80);
          seed = (ix * 13 + iy * 23) mod 2 ^ 32
      in real_of_int (((seed * 99991) mod 2 ^ 32) mod 100000) / 100000 * (2 * pi))"

text \<open>
  \<open>free_before particles j\<close> is the number of inactive slots that the scan
  meets before slot \<open>j\<close>. \<open>spawned\<close> is a slot as the emitter initialises
  it, given the two offsets. \<open>example_particle\<close> is a particle as spawned at
  \<open>(500, 300)\<close> with offsets 0, \<open>example_pool\<close> the initial pool with that
  particle in slot 0, and \<open>dying_pool\<close> the same pool when the particle has
  a thousandth of its life left. \<open>example_rnd\<close> is a sequence of offsets
  that runs through the whole range from -10 to 10.
\<close>

definition free_before :: "Particle list \<Rightarrow> nat \<Rightarrow> nat" where
  "free_before particles j = length (filter (\<lambda>l. \<not> active (particles ! l)) [0..<j])"

definition spawned :: "Vector2 \<Rightarrow> int \<Rightarrow> int \<Rightarrow> Particle" where
  "spawned mousePos jx jy =
     \<lparr>position = \<lparr>vec_x = vec_x mousePos + real_of_int jx,
                   vec_y = vec_y mousePos + real_of_int jy\<rparr>,
      velocity = \<lparr>vec_x = 0, vec_y = 0\<rparr>,
      color = \<lparr>col_r = 0, col_g = 180, col_b = 255, col_a = 255\<rparr>,
      life = 1, active = True\<rparr>"

definition example_particle :: Particle where
  "example_particle = spawned \<lparr>vec_x = 500, vec_y = 300\<rparr> 0 0"

definition example_pool :: "Particle list" where
  "example_pool = initial_particles[0 := example_particle]"




definition example_rnd :: "nat \<Rightarrow> int" where
  "example_rnd n = int (n mod 21) - 10"

text \<open>
  The loops are unfolded one iteration at a time, by hand, in the proofs.
\<close>

declare spawn_scan.simps [simp del]
declare spawn_from.simps [simp del]
declare count_from.simps [simp del]

section \<open>Properties of the rounding\<close>

subsection \<open>Rounding to the nearest integer\<close>

lemma round_even_of_int [simp]: "round_even (of_int n) = n"
  by (simp add: round_even_def)

lemma round_even_cases:
  "round_even r = \<lfloor>r\<rfloor> \<or> round_even r = \<lfloor>r\<rfloor> + 1"
  by (auto simp: round_even_def Let_def)

lemma round_even_upper: "of_int (round_even r) \<le> r + 1 / 2"
proof -
  define f where "f = \<lfloor>r\<rfloor>"
  have "of_int f \<le> r" by (simp add: f_def)
  then show ?thesis
    unfolding round_even_def Let_def f_def [symmetric] by auto
qed

lemma round_even_lower: "r - 1 / 2 \<le> of_int (round_even r)"
proof -
  define f where "f = \<lfloor>r\<rfloor>"
  have "r < of_int f + 1" unfolding f_def by linarith
  then show ?thesis
    unfolding round_even_def Let_def f_def [symmetric] by auto
qed

lemma round_even_mono: "a \<le> b \<Longrightarrow> round_even a \<le> round_even b"
proof -
  assume ab: "a \<le> b"
  then have f: "\<lfloor>a\<rfloor> \<le> \<lfloor>b\<rfloor>" by (rule floor_mono)
  show ?thesis
  proof (cases "\<lfloor>a\<rfloor> = \<lfloor>b\<rfloor>")
    case True
    with ab have "a - of_int \<lfloor>b\<rfloor> \<le> b - of_int \<lfloor>b\<rfloor>" by simp
    then show ?thesis
      unfolding round_even_def Let_def True by (simp split: if_splits)
  next
    case False
    with f have "\<lfloor>a\<rfloor> + 1 \<le> \<lfloor>b\<rfloor>" by simp
    moreover have "round_even a \<le> \<lfloor>a\<rfloor> + 1" "\<lfloor>b\<rfloor> \<le> round_even b"
      using round_even_cases [of a] round_even_cases [of b] by auto
    ultimately show ?thesis by linarith
  qed
qed

lemma round_even_minus: "round_even (- r) = - round_even r"
proof (cases "r = of_int \<lfloor>r\<rfloor>")
  case True
  then obtain n :: int where "r = of_int n" ..
  then show ?thesis
    by (simp flip: of_int_minus)
next
  case False
  define f where "f = \<lfloor>r\<rfloor>"
  define d where "d = r - of_int f"
  have "of_int f \<le> r" "r < of_int f + 1"
    unfolding f_def by linarith+
  moreover have "r \<noteq> of_int f"
    using False by (simp add: f_def)
  ultimately have "of_int (- f - 1) \<le> - r" "- r < of_int (- f - 1) + 1"
    by simp_all
  then have "\<lfloor>- r\<rfloor> = - f - 1"
    by (rule floor_unique)
  then have fl: "\<lfloor>- r\<rfloor> = - \<lfloor>r\<rfloor> - 1"
    by (simp add: f_def)
  have d': "- r - of_int (- f - 1) = 1 - d"
    by (simp add: d_def)
  have e: "even (- f - 1) \<longleftrightarrow> odd f"
    by simp
  show ?thesis
    unfolding round_even_def Let_def fl unfolding f_def [symmetric] d' d_def [symmetric] e
    by (simp split: if_splits)
qed

lemma round_even_ge: "of_int n \<le> r \<Longrightarrow> n \<le> round_even r"
  using round_even_mono [of "of_int n" r] by simp

lemma round_even_le: "r \<le> of_int n \<Longrightarrow> round_even r \<le> n"
  using round_even_mono [of r "of_int n"] by simp

lemma round_even_less: "r < of_int n - 1 / 2 \<Longrightarrow> round_even r < n"
  using round_even_upper [of r] by linarith

lemma round_even_greater: "of_int n + 1 / 2 < r \<Longrightarrow> n < round_even r"
  using round_even_lower [of r] by linarith


lemma two_powr_int: "(2::real) powr real_of_int k = 2 powi k"
  by (rule powr_real_of_int') simp_all

lemma floor_log2_bounds:
  assumes "x \<noteq> 0"
  shows "2 powi \<lfloor>log 2 \<bar>x\<bar>\<rfloor> \<le> \<bar>x\<bar>" and "\<bar>x\<bar> < 2 powi (\<lfloor>log 2 \<bar>x\<bar>\<rfloor> + 1)"
proof -
  have "2 powr real_of_int \<lfloor>log 2 \<bar>x\<bar>\<rfloor> \<le> \<bar>x\<bar> \<and> \<bar>x\<bar> < 2 powr (real_of_int \<lfloor>log 2 \<bar>x\<bar>\<rfloor> + 1)"
    using floor_log_eq_powr_iff [of "\<bar>x\<bar>" 2 "\<lfloor>log 2 \<bar>x\<bar>\<rfloor>"] assms by simp
  moreover have "real_of_int \<lfloor>log 2 \<bar>x\<bar>\<rfloor> + 1 = real_of_int (\<lfloor>log 2 \<bar>x\<bar>\<rfloor> + 1)"
    by simp
  ultimately show "2 powi \<lfloor>log 2 \<bar>x\<bar>\<rfloor> \<le> \<bar>x\<bar>" and "\<bar>x\<bar> < 2 powi (\<lfloor>log 2 \<bar>x\<bar>\<rfloor> + 1)"
    by (simp_all only: two_powr_int)
qed

lemma floor_log2_eqI:
  assumes "2 powi k \<le> \<bar>x\<bar>" and "\<bar>x\<bar> < 2 powi (k + 1)"
  shows "\<lfloor>log 2 \<bar>x\<bar>\<rfloor> = k"
proof -
  have pos: "0 < \<bar>x\<bar>"
    using assms(1) zero_less_power_int [of "2::real" k] by linarith
  have "real_of_int k + 1 = real_of_int (k + 1)"
    by simp
  then have "2 powr real_of_int k \<le> \<bar>x\<bar> \<and> \<bar>x\<bar> < 2 powr (real_of_int k + 1)"
    using assms by (simp only: two_powr_int)
  then show ?thesis
    using floor_log_eq_powr_iff [of "\<bar>x\<bar>" 2 k] pos by simp
qed

lemma ulp_exponent_eqI:
  "2 powi k \<le> \<bar>x\<bar> \<Longrightarrow> \<bar>x\<bar> < 2 powi (k + 1) \<Longrightarrow> ulp_exponent x = max (k - 23) (- 149)"
  by (simp add: ulp_exponent_def floor_log2_eqI)

lemma ulp_exponent_minus [simp]: "ulp_exponent (- x) = ulp_exponent x"
  by (simp add: ulp_exponent_def)

lemma ulp_exponent_ge: "- 149 \<le> ulp_exponent x"
  by (simp add: ulp_exponent_def)

lemma ulp_exponent_upper:
  assumes "x \<noteq> 0"
  shows "\<bar>x\<bar> < 2 powi (ulp_exponent x + 24)"
proof -
  have "\<lfloor>log 2 \<bar>x\<bar>\<rfloor> + 1 \<le> ulp_exponent x + 24"
    by (simp add: ulp_exponent_def)
  then have "(2::real) powi (\<lfloor>log 2 \<bar>x\<bar>\<rfloor> + 1) \<le> 2 powi (ulp_exponent x + 24)"
    by (intro power_int_increasing) simp_all
  with floor_log2_bounds(2) [OF assms] show ?thesis by linarith
qed

lemma ulp_exponent_lower:
  assumes "x \<noteq> 0" and "- 149 < ulp_exponent x"
  shows "2 powi (ulp_exponent x + 23) \<le> \<bar>x\<bar>"
proof -
  from assms(2) have "ulp_exponent x + 23 = \<lfloor>log 2 \<bar>x\<bar>\<rfloor>"
    by (simp add: ulp_exponent_def max_def split: if_splits)
  with floor_log2_bounds(1) [OF assms(1)] show ?thesis by simp
qed

lemma ulp_exponent_mono:
  assumes "a \<noteq> 0" and "\<bar>a\<bar> \<le> \<bar>b\<bar>"
  shows "ulp_exponent a \<le> ulp_exponent b"
proof -
  have "log 2 \<bar>a\<bar> \<le> log 2 \<bar>b\<bar>"
    using assms by simp
  then have "\<lfloor>log 2 \<bar>a\<bar>\<rfloor> \<le> \<lfloor>log 2 \<bar>b\<bar>\<rfloor>"
    by (rule floor_mono)
  then show ?thesis
    by (simp add: ulp_exponent_def)
qed

lemma ulp_exponent_le:
  assumes "x \<noteq> 0" and "\<bar>x\<bar> < 2 powi (k + 1)" and "- 126 \<le> k"
  shows "ulp_exponent x \<le> k - 23"
proof -
  have "\<lfloor>log 2 \<bar>x\<bar>\<rfloor> < k + 1"
  proof (rule ccontr)
    assume "\<not> \<lfloor>log 2 \<bar>x\<bar>\<rfloor> < k + 1"
    then have "(2::real) powi (k + 1) \<le> 2 powi \<lfloor>log 2 \<bar>x\<bar>\<rfloor>"
      by (intro power_int_increasing) simp_all
    with floor_log2_bounds(1) [OF assms(1)] assms(2) show False by linarith
  qed
  with assms(3) show ?thesis
    by (simp add: ulp_exponent_def)
qed

lemma ulp_exponent_ge':
  assumes "2 powi k \<le> \<bar>x\<bar>"
  shows "k - 23 \<le> ulp_exponent x"
proof -
  have "(0::real) < 2 powi k"
    by simp
  with assms have "0 < \<bar>x\<bar>"
    by linarith
  then have nz: "x \<noteq> 0"
    by simp
  have "k \<le> \<lfloor>log 2 \<bar>x\<bar>\<rfloor>"
  proof (rule ccontr)
    assume "\<not> k \<le> \<lfloor>log 2 \<bar>x\<bar>\<rfloor>"
    then have "(2::real) powi (\<lfloor>log 2 \<bar>x\<bar>\<rfloor> + 1) \<le> 2 powi k"
      by (intro power_int_increasing) simp_all
    with floor_log2_bounds(2) [OF nz] assms show False by linarith
  qed
  then show ?thesis
    by (simp add: ulp_exponent_def)
qed


lemma fl32_0 [simp]: "fl32 0 = 0"
  by (simp add: fl32_def)

lemma fl32_eq:
  "x \<noteq> 0 \<Longrightarrow> ulp_exponent x = e \<Longrightarrow>
   fl32 x = of_int (round_even (x / 2 powi e)) * 2 powi e"
  by (simp add: fl32_def)

lemma fl32_eqI:
  assumes "2 powi k \<le> \<bar>x\<bar>" and "\<bar>x\<bar> < 2 powi (k + 1)" and "e = max (k - 23) (- 149)"
  shows "fl32 x = of_int (round_even (x / 2 powi e)) * 2 powi e"
proof -
  have "(0::real) < 2 powi k" by simp
  with assms(1) have "0 < \<bar>x\<bar>" by linarith
  then have "x \<noteq> 0" by simp
  then show ?thesis
    using ulp_exponent_eqI [OF assms(1,2)] assms(3) by (simp add: fl32_eq)
qed

lemma fl32_minus: "fl32 (- x) = - fl32 x"
  by (simp add: fl32_def round_even_minus)

lemma fl32_nonneg: "0 \<le> x \<Longrightarrow> 0 \<le> fl32 x"
proof (cases "x = 0")
  case False
  assume "0 \<le> x"
  then have "of_int 0 \<le> x / 2 powi ulp_exponent x"
    by simp
  then have "0 \<le> round_even (x / 2 powi ulp_exponent x)"
    by (rule round_even_ge)
  then show ?thesis
    using False by (simp add: fl32_def)
qed simp

lemma fl32_nonpos: "x \<le> 0 \<Longrightarrow> fl32 x \<le> 0"
  using fl32_nonneg [of "- x"] by (simp add: fl32_minus)

lemma power_int_split:
  assumes "e' \<le> e"
  shows "(2::real) powi e = of_int (2 ^ nat (e - e')) * 2 powi e'"
proof -
  obtain n where n: "e = e' + int n"
    using assms by (auto simp: zle_iff_zadd)
  have "(2::real) powi e = 2 powi int n * 2 powi e'"
    unfolding n by (subst add.commute, rule power_int_add) simp
  also have "(2::real) powi int n = 2 ^ n"
    by (rule power_int_of_nat)
  finally show ?thesis
    by (simp add: n)
qed

lemma fl32_grid_strict:
  assumes "\<bar>m\<bar> < 2 ^ 24" and "- 149 \<le> e"
  shows "fl32 (of_int m * 2 powi e) = of_int m * 2 powi e"
proof (cases "m = 0")
  case False
  define x :: real where "x = of_int m * 2 powi e"
  have nz: "x \<noteq> 0"
    using False by (simp add: x_def)
  have "\<bar>x\<bar> = of_int \<bar>m\<bar> * 2 powi e"
    by (simp add: x_def abs_mult)
  also have "\<dots> < of_int (2 ^ 24) * 2 powi e"
    using assms(1) by (intro mult_strict_right_mono) (simp_all del: of_int_power)
  also have "\<dots> = 2 powi (e + 23 + 1)"
    using power_int_add [of "2::real" 24 e] by (simp add: add.commute)
  finally have "ulp_exponent x \<le> e + 23 - 23"
    using assms(2) by (intro ulp_exponent_le [OF nz]) simp_all
  define u where "u = ulp_exponent x"
  have le: "u \<le> e"
    using \<open>ulp_exponent x \<le> e + 23 - 23\<close> by (simp add: u_def)
  have "x / 2 powi u = of_int (m * 2 ^ nat (e - u))"
    unfolding x_def by (subst power_int_split [OF le]) simp
  then have "round_even (x / 2 powi u) = m * 2 ^ nat (e - u)"
    by (simp only: round_even_of_int)
  then have "fl32 x = of_int (m * 2 ^ nat (e - u)) * 2 powi u"
    using nz by (simp add: fl32_def u_def)
  also have "\<dots> = x"
    unfolding x_def by (subst power_int_split [OF le]) simp
  finally show ?thesis
    by (simp add: x_def)
qed simp

lemma fl32_grid:
  assumes "\<bar>m\<bar> \<le> 2 ^ 24" and "- 149 \<le> e"
  shows "fl32 (of_int m * 2 powi e) = of_int m * 2 powi e"
proof (cases "\<bar>m\<bar> < 2 ^ 24")
  case True
  then show ?thesis using assms(2) by (rule fl32_grid_strict)
next
  case False
  with assms(1) have "\<bar>m\<bar> = 2 ^ 24" by simp
  then have "m = 16777216 \<or> m = - 16777216"
    by (simp add: abs_if split: if_splits)
  then have m: "m = 2 * (m div 2)" and h: "\<bar>m div 2\<bar> < 2 ^ 24"
    by auto
  have "of_int m * (2::real) powi e = of_int (m div 2) * 2 powi (e + 1)"
    by (subst m) (simp add: power_int_add)
  moreover have "fl32 (of_int (m div 2) * 2 powi (e + 1)) = of_int (m div 2) * 2 powi (e + 1)"
    using h assms(2) by (intro fl32_grid_strict) simp_all
  ultimately show ?thesis by simp
qed

lemma fl32_of_int: "\<bar>n\<bar> \<le> 2 ^ 24 \<Longrightarrow> fl32 (of_int n) = of_int n"
  using fl32_grid [of n 0] by simp


lemma fl32_le_pow:
  assumes "0 < a"
  shows "fl32 a \<le> 2 powi (ulp_exponent a + 24)"
proof -
  define e where "e = ulp_exponent a"
  have nz: "a \<noteq> 0" using assms by simp
  have "\<bar>a\<bar> < 2 powi (e + 24)"
    unfolding e_def using nz by (rule ulp_exponent_upper)
  then have "a < 2 powi e * 2 powi 24"
    using assms by (simp add: power_int_add mult.commute)
  then have "a / 2 powi e < of_int (2 ^ 24)"
    by (simp add: pos_divide_less_eq mult.commute)
  then have "a / 2 powi e \<le> of_int (2 ^ 24)"
    by simp
  then have "round_even (a / 2 powi e) \<le> 2 ^ 24"
    by (rule round_even_le)
  then have "(of_int (round_even (a / 2 powi e)) :: real) \<le> of_int (2 ^ 24)"
    by (simp only: of_int_le_iff)
  then have "of_int (round_even (a / 2 powi e)) * 2 powi e \<le> of_int (2 ^ 24) * (2::real) powi e"
    by (intro mult_right_mono) simp_all
  also have "\<dots> = 2 powi (e + 24)"
    by (simp add: power_int_add mult.commute)
  finally show ?thesis
    using nz by (simp add: fl32_def e_def)
qed

lemma fl32_ge_pow:
  assumes "0 < b" and "- 149 < ulp_exponent b"
  shows "2 powi (ulp_exponent b + 23) \<le> fl32 b"
proof -
  define e where "e = ulp_exponent b"
  have nz: "b \<noteq> 0" using assms by simp
  have "2 powi (e + 23) \<le> \<bar>b\<bar>"
    unfolding e_def using nz assms(2) by (rule ulp_exponent_lower)
  then have "2 powi e * 2 powi 23 \<le> b"
    using assms by (simp add: power_int_add mult.commute)
  then have "of_int (2 ^ 23) \<le> b / 2 powi e"
    by (simp add: pos_le_divide_eq mult.commute)
  then have "2 ^ 23 \<le> round_even (b / 2 powi e)"
    by (rule round_even_ge)
  then have "(of_int (2 ^ 23) :: real) \<le> of_int (round_even (b / 2 powi e))"
    by (simp only: of_int_le_iff)
  then have "of_int (2 ^ 23) * (2::real) powi e \<le> of_int (round_even (b / 2 powi e)) * 2 powi e"
    by (intro mult_right_mono) simp_all
  moreover have "of_int (2 ^ 23) * (2::real) powi e = 2 powi (e + 23)"
    by (simp add: power_int_add mult.commute)
  moreover have "fl32 b = of_int (round_even (b / 2 powi e)) * 2 powi e"
    using nz by (simp add: fl32_def e_def)
  ultimately show ?thesis
    unfolding e_def [symmetric] by linarith
qed

lemma fl32_mono_pos:
  assumes "0 < a" and "a \<le> b"
  shows "fl32 a \<le> fl32 b"
proof -
  have nz: "a \<noteq> 0" "b \<noteq> 0" using assms by simp_all
  have le: "ulp_exponent a \<le> ulp_exponent b"
    using assms by (intro ulp_exponent_mono) simp_all
  show ?thesis
  proof (cases "ulp_exponent a = ulp_exponent b")
    case True
    define e where "e = ulp_exponent b"
    have "a / 2 powi e \<le> b / 2 powi e"
      using assms(2) by (simp add: divide_right_mono)
    then have "round_even (a / 2 powi e) \<le> round_even (b / 2 powi e)"
      by (rule round_even_mono)
    then have "(of_int (round_even (a / 2 powi e)) :: real) \<le> of_int (round_even (b / 2 powi e))"
      by (simp only: of_int_le_iff)
    then have "of_int (round_even (a / 2 powi e)) * (2::real) powi e
        \<le> of_int (round_even (b / 2 powi e)) * 2 powi e"
      by (intro mult_right_mono) simp_all
    then show ?thesis
      using nz True by (simp add: fl32_def e_def)
  next
    case False
    with le have lt: "ulp_exponent a < ulp_exponent b" by simp
    have "- 149 \<le> ulp_exponent a" by (rule ulp_exponent_ge)
    with lt have "- 149 < ulp_exponent b" by simp
    with assms have "2 powi (ulp_exponent b + 23) \<le> fl32 b"
      by (intro fl32_ge_pow) simp_all
    moreover have "fl32 a \<le> 2 powi (ulp_exponent a + 24)"
      using assms(1) by (rule fl32_le_pow)
    moreover have "(2::real) powi (ulp_exponent a + 24) \<le> 2 powi (ulp_exponent b + 23)"
      using lt by (intro power_int_increasing) simp_all
    ultimately show ?thesis by linarith
  qed
qed

lemma fl32_mono:
  assumes "a \<le> b"
  shows "fl32 a \<le> fl32 b"
proof -
  consider "0 < a" | "a \<le> 0" "0 \<le> b" | "b < 0" by linarith
  then show ?thesis
  proof cases
    case 1
    then show ?thesis using assms by (rule fl32_mono_pos)
  next
    case 2
    then show ?thesis using fl32_nonpos [of a] fl32_nonneg [of b] by linarith
  next
    case 3
    then have "fl32 (- b) \<le> fl32 (- a)"
      using assms by (intro fl32_mono_pos) simp_all
    then show ?thesis by (simp add: fl32_minus)
  qed
qed


lemma fl32_ge: "of_int m * 2 powi e \<le> a \<Longrightarrow> \<bar>m\<bar> \<le> 2 ^ 24 \<Longrightarrow> - 149 \<le> e \<Longrightarrow>
  of_int m * 2 powi e \<le> fl32 a"
  using fl32_mono [of "of_int m * 2 powi e" a] by (simp add: fl32_grid)


lemma fl32_ge_int: "of_int m \<le> a \<Longrightarrow> \<bar>m\<bar> \<le> 2 ^ 24 \<Longrightarrow> of_int m \<le> fl32 a"
  using fl32_ge [of m 0 a] by simp



lemma binary32_grid:
  assumes "binary32 x" and "2 powi k \<le> \<bar>x\<bar>"
  shows "\<exists>m::int. x = of_int m * 2 powi (k - 23)"
proof -
  have "(0::real) < 2 powi k" by simp
  with assms(2) have "0 < \<bar>x\<bar>" by linarith
  then have nz: "x \<noteq> 0" by simp
  define e where "e = ulp_exponent x"
  have le: "k - 23 \<le> e"
    unfolding e_def using assms(2) by (rule ulp_exponent_ge')
  have "x = fl32 x"
    using assms(1) by (simp add: binary32_def)
  also have "\<dots> = of_int (round_even (x / 2 powi e)) * 2 powi e"
    using nz by (simp add: fl32_def e_def)
  also have "\<dots> = of_int (round_even (x / 2 powi e) * 2 ^ nat (e - (k - 23))) * 2 powi (k - 23)"
    by (subst power_int_split [OF le]) simp
  finally show ?thesis by blast
qed

lemma binary32_grid_min:
  assumes "binary32 x"
  shows "\<exists>m::int. x = of_int m * 2 powi (- 149)"
proof (cases "x = 0")
  case True
  then have "x = of_int 0 * 2 powi (- 149)" by simp
  then show ?thesis by blast
next
  case nz: False
  define e where "e = ulp_exponent x"
  have le: "- 149 \<le> e"
    unfolding e_def by (rule ulp_exponent_ge)
  have "x = fl32 x"
    using assms(1) by (simp add: binary32_def)
  also have "\<dots> = of_int (round_even (x / 2 powi e)) * 2 powi e"
    using nz by (simp add: fl32_def e_def)
  also have "\<dots> = of_int (round_even (x / 2 powi e) * 2 ^ nat (e - (- 149))) * 2 powi (- 149)"
    by (subst power_int_split [OF le]) simp
  finally show ?thesis by blast
qed

lemma binary32_minus: "binary32 x \<Longrightarrow> binary32 (- x)"
  by (simp add: binary32_def fl32_minus)

lemma binary32_I:
  "\<bar>m\<bar> \<le> 2 ^ 24 \<Longrightarrow> - 149 \<le> e \<Longrightarrow> e \<le> 100 \<Longrightarrow> x = of_int m * 2 powi e \<Longrightarrow> binary32 x"
proof -
  assume m: "\<bar>m\<bar> \<le> 2 ^ 24" and e: "- 149 \<le> e" "e \<le> 100" and x: "x = of_int m * 2 powi e"
  have "\<bar>x\<bar> = of_int \<bar>m\<bar> * 2 powi e"
    by (simp add: x abs_mult)
  also have "\<dots> \<le> of_int (2 ^ 24) * 2 powi 100"
    using m e by (intro mult_mono power_int_increasing) (simp_all del: of_int_power)
  also have "\<dots> < 2 ^ 128"
    by simp
  finally show ?thesis
    using m e by (simp add: binary32_def x fl32_grid)
qed

lemma binary32_of_int: "\<bar>n\<bar> \<le> 2 ^ 24 \<Longrightarrow> binary32 (of_int n)"
  using binary32_I [of n 0 "of_int n"] by simp

subsection \<open>The quotient by the cell size\<close>

text \<open>
  For a binary32 coordinate \<open>x\<close> below \<open>80 * 2^22\<close> in absolute value the
  rounding of \<open>x / 80\<close> never reaches the next integer: \<open>x\<close> and the
  multiples of 80 lie on a common grid that is coarser than half the spacing
  of the quotient, so the rounded and the exact quotient have the same
  integral part.
\<close>

lemma c_trunc_minus: "c_trunc (- v) = - c_trunc v"
  by (auto simp: c_trunc_def ceiling_def)

lemma fl32_less_int:
  assumes "0 < q" and "ulp_exponent q \<le> 0"
    and "2 powi (ulp_exponent q) / 2 < of_int N - q"
  shows "fl32 q < of_int N"
proof -
  define e where "e = ulp_exponent q"
  have e: "e \<le> 0" using assms(2) by (simp add: e_def)
  have p: "(0::real) < 2 powi e" by simp
  have one: "(1::real) = of_int (2 ^ nat (- e)) * 2 powi e"
    using power_int_split [OF e] by simp
  define T where "T = N * 2 ^ nat (- e)"
  have T: "of_int T * 2 powi e = (of_int N :: real)"
    using one by (simp add: T_def mult.assoc)
  have "2 powi e / 2 < of_int N - q"
    using assms(3) by (simp add: e_def)
  then have "2 powi e / 2 < of_int T * 2 powi e - q"
    by (simp only: T)
  then have "q < (of_int T - 1 / 2) * 2 powi e"
    by (simp add: algebra_simps)
  then have "q / 2 powi e < of_int T - 1 / 2"
    using p by (simp add: pos_divide_less_eq)
  then have "round_even (q / 2 powi e) < T"
    by (rule round_even_less)
  then have "round_even (q / 2 powi e) \<le> T - 1"
    by simp
  then have "(of_int (round_even (q / 2 powi e)) :: real) \<le> of_int (T - 1)"
    by (simp only: of_int_le_iff)
  then have "of_int (round_even (q / 2 powi e)) * 2 powi e \<le> of_int (T - 1) * (2::real) powi e"
    by (intro mult_right_mono) simp_all
  also have "\<dots> = of_int N - 2 powi e"
    using T by (simp add: algebra_simps)
  also have "\<dots> < of_int N"
    using p by simp
  finally show ?thesis
    using assms(1) by (simp add: fl32_def e_def)
qed

lemma quantization_gap:
  assumes "binary32 x" and "0 < x" and "x < 80 * of_int N" and "N \<le> 2 ^ 22"
  shows "ulp_exponent (x / 80) \<le> 0 \<and> 2 powi (ulp_exponent (x / 80)) / 2 < of_int N - x / 80"
proof -
  define q where "q = x / 80"
  define e where "e = ulp_exponent q"
  have q: "0 < q" "q < of_int N" "x = 80 * q"
    using assms(2,3) by (simp_all add: q_def)
  have N: "1 \<le> N"
    using q(1,2) by linarith
  have "(of_int N :: real) \<le> of_int (2 ^ 22)"
    using assms(4) by (simp only: of_int_le_iff)
  with q have "\<bar>q\<bar> < 2 powi (21 + 1)"
    by simp
  then have "e \<le> 21 - 23"
    unfolding e_def using q(1) by (intro ulp_exponent_le) simp_all
  then have e: "e \<le> - 2" by simp
  have p: "(0::real) < 2 powi e" by simp
  have "40 * 2 powi e < 80 * of_int N - x"
  proof (cases "e = - 149")
    case True
    have "\<bar>q\<bar> < 2 powi (e + 24)"
      unfolding e_def using q(1) by (intro ulp_exponent_upper) simp
    also have "\<dots> \<le> 2 powi (- 1)"
      using True by (intro power_int_increasing) simp_all
    also have "\<dots> = 1 / 2"
      by (simp add: power_int_minus inverse_eq_divide)
    finally have "q < 1 / 2" using q(1) by simp
    then have "x < 40" by (simp add: q(3))
    moreover have "(1::real) \<le> of_int N" using N by simp
    moreover have "(2::real) powi e \<le> 2 powi 0"
      using e by (intro power_int_increasing) simp_all
    then have "(2::real) powi e \<le> 1" by simp
    ultimately show ?thesis by linarith
  next
    case False
    moreover have "- 149 \<le> e"
      unfolding e_def by (rule ulp_exponent_ge)
    ultimately have "- 149 < e" by simp
    then have "2 powi (e + 23) \<le> \<bar>q\<bar>"
      unfolding e_def using q(1) by (intro ulp_exponent_lower) simp_all
    then have "2 powi (e + 23) \<le> q"
      using q(1) by simp
    moreover have "(2::real) powi (e + 29) = 64 * 2 powi (e + 23)"
      using power_int_add [of "2::real" "e + 23" 6] by (simp add: add.commute mult.commute)
    ultimately have "2 powi (e + 29) \<le> \<bar>x\<bar>"
      using q(1) by (simp add: q(3))
    from binary32_grid [OF assms(1) this] obtain m :: int where
      "x = of_int m * 2 powi (e + 29 - 23)"
      by blast
    then have m: "x = of_int m * 2 powi (e + 6)"
      by (simp add: add.commute)
    have "e + 6 \<le> 4" using e by simp
    from power_int_split [OF this]
    have "80 * (of_int N :: real) = of_int (5 * N * 2 ^ nat (4 - (e + 6))) * 2 powi (e + 6)"
      by simp
    moreover define M where "M = 5 * N * 2 ^ nat (4 - (e + 6))"
    ultimately have M: "80 * (of_int N :: real) = of_int M * 2 powi (e + 6)"
      by simp
    define D where "D = M - m"
    have d: "80 * of_int N - x = of_int D * 2 powi (e + 6)"
      unfolding M D_def by (subst m) (simp add: left_diff_distrib)
    have "0 < 80 * of_int N - x"
      using assms(3) by simp
    then have "0 < of_int D * (2::real) powi (e + 6)"
      by (simp only: d)
    then have "(0::real) < of_int D"
      by (rule zero_less_mult_pos2) simp
    then have "1 \<le> D"
      by linarith
    then have "(1::real) \<le> of_int D"
      by linarith
    then have "1 * (2::real) powi (e + 6) \<le> of_int D * 2 powi (e + 6)"
      by (intro mult_right_mono) simp_all
    then have "2 powi (e + 6) \<le> 80 * of_int N - x"
      by (simp only: d mult_1)
    moreover have "(2::real) powi (e + 6) = 64 * 2 powi e"
      using power_int_add [of "2::real" e 6] by (simp add: mult.commute)
    ultimately show ?thesis
      using p by linarith
  qed
  then have "2 powi e / 2 < of_int N - q"
    by (simp add: q(3))
  with e show ?thesis
    unfolding e_def q_def by simp
qed

lemma quantization_floor:
  assumes "binary32 x" and "0 \<le> x" and "x < 80 * 2 ^ 22"
  shows "\<lfloor>fl32 (x / 80)\<rfloor> = \<lfloor>x / 80\<rfloor>"
proof (cases "x = 0")
  case False
  with assms(2) have pos: "0 < x" by simp
  define n where "n = \<lfloor>x / 80\<rfloor>"
  have n: "of_int n \<le> x / 80" "x / 80 < of_int (n + 1)" "0 \<le> n"
    using pos by (simp_all add: n_def) linarith
  have "x / 80 < of_int (2 ^ 22)"
    using assms(3) by simp
  with n(1) have "(of_int n :: real) < of_int (2 ^ 22)"
    by linarith
  then have n22: "n < 2 ^ 22"
    by (simp only: of_int_less_iff)
  have lower: "of_int n \<le> fl32 (x / 80)"
    using n(1) by (rule fl32_ge_int) (use n(3) n22 in simp)
  have "x < 80 * of_int (n + 1)"
    using n(2) by simp
  from quantization_gap [OF assms(1) pos this] n22
  have "ulp_exponent (x / 80) \<le> 0"
    "2 powi (ulp_exponent (x / 80)) / 2 < of_int (n + 1) - x / 80"
    by simp_all
  then have "fl32 (x / 80) < of_int (n + 1)"
    using pos by (intro fl32_less_int) simp_all
  then have "fl32 (x / 80) < of_int n + 1"
    by simp
  with lower have "\<lfloor>fl32 (x / 80)\<rfloor> = n"
    by (intro floor_unique)
  then show ?thesis
    by (simp add: n_def)
qed simp

lemma quantization_exact_pos:
  assumes "binary32 x" and "0 \<le> x" and "x < 80 * 2 ^ 22"
  shows "c_trunc (fl32 (x / 80)) = c_trunc (x / 80)"
proof -
  have "0 \<le> fl32 (x / 80)"
    using assms(2) by (intro fl32_nonneg) simp
  then show ?thesis
    using assms(2) quantization_floor [OF assms] by (simp add: c_trunc_def)
qed

lemma quantization_exact:
  assumes "binary32 x" and "\<bar>x\<bar> < 80 * 2 ^ 22"
  shows "c_trunc (fl32 (x / 80)) = c_trunc (x / 80)"
proof (cases "0 \<le> x")
  case True
  with assms show ?thesis by (intro quantization_exact_pos) simp_all
next
  case False
  with assms have "c_trunc (fl32 (- x / 80)) = c_trunc (- x / 80)"
    by (intro quantization_exact_pos binary32_minus) simp_all
  then have "c_trunc (- fl32 (x / 80)) = c_trunc (- (x / 80))"
    using fl32_minus [of "x / 80"] by simp
  then show ?thesis
    by (simp add: c_trunc_minus)
qed

lemma quantization_far:
  assumes "80 * 2 ^ 22 \<le> \<bar>x\<bar>"
  shows "2 ^ 22 \<le> \<bar>c_trunc (fl32 (x / 80))\<bar>"
proof -
  have pos: "2 ^ 22 \<le> c_trunc (fl32 (y / 80))" if "80 * 2 ^ 22 \<le> y" for y :: real
  proof -
    have "of_int (2 ^ 22) \<le> y / 80"
      using that by simp
    then have "of_int (2 ^ 22) \<le> fl32 (y / 80)"
      by (rule fl32_ge_int) simp
    then have "2 ^ 22 \<le> \<lfloor>fl32 (y / 80)\<rfloor>" "0 \<le> fl32 (y / 80)"
      by (simp_all add: le_floor_iff)
    then show ?thesis
      by (simp add: c_trunc_def)
  qed
  show ?thesis
  proof (cases "0 \<le> x")
    case True
    with assms pos [of x] show ?thesis by simp
  next
    case False
    with assms pos [of "- x"] have "2 ^ 22 \<le> c_trunc (fl32 (- (x / 80)))"
      by simp
    then show ?thesis
      by (simp add: fl32_minus c_trunc_minus)
  qed
qed

section \<open>Properties of the vector field\<close>

subsection \<open>Truncation and the seed\<close>

lemma c_trunc_eq_trunc_toward_zero: "c_trunc v = trunc_toward_zero v"
  by (auto simp: c_trunc_def trunc_toward_zero_def ceiling_def)

lemma c_trunc_zero_iff: "c_trunc v = 0 \<longleftrightarrow> - 1 < v \<and> v < 1"
  unfolding c_trunc_def by (auto simp: floor_eq_iff ceiling_eq_iff)

lemma c_trunc_pos_iff: "0 < k \<Longrightarrow> c_trunc v = k \<longleftrightarrow> of_int k \<le> v \<and> v < of_int k + 1"
  unfolding c_trunc_def by (auto simp: floor_eq_iff ceiling_eq_iff)

lemma c_trunc_neg_iff: "k < 0 \<Longrightarrow> c_trunc v = k \<longleftrightarrow> of_int k - 1 < v \<and> v \<le> of_int k"
  unfolding c_trunc_def by (auto simp: floor_eq_iff ceiling_eq_iff)

lemma seed_word:
  "real (unat (((word_of_int s :: 32 word) * 99991) mod 100000)) =
   real_of_int ((((s mod 2 ^ 32) * 99991) mod 2 ^ 32) mod 100000)"
proof -
  have "uint (((word_of_int s :: 32 word) * 99991) mod 100000) =
        (((s mod 2 ^ 32) * 99991) mod 2 ^ 32) mod 100000"
    by (simp add: uint_mod uint_word_ariths uint_word_of_int take_bit_eq_mod)
  then show ?thesis
    by (metis of_int_of_nat_eq uint_nat)
qed

lemma grid_cell_eq:
  "grid_cell v =
     (if int_range (c_trunc (fl32 (v / 80))) then Some (c_trunc (fl32 (v / 80))) else None)"
  by (simp add: grid_cell_def float_to_int_def VECTOR_GRID_SIZE_def Let_def)

lemma field_angle_grid_cell:
  "field_angle x y = do {
     ix \<leftarrow> grid_cell x;
     iy \<leftarrow> grid_cell y;
     a \<leftarrow> int_result (ix * 13);
     b \<leftarrow> int_result (iy * 23);
     s \<leftarrow> int_result (a + b);
     Some (real (unat (((word_of_int s :: 32 word) * 99991) mod 100000)) / 100000 * 2 * PI)
   }"
  by (simp add: field_angle_def grid_cell_def Let_def)

lemma c_trunc_bound:
  assumes "\<bar>v\<bar> < of_int n"
  shows "\<bar>c_trunc v\<bar> \<le> n"
proof (cases "0 \<le> v")
  case True
  then have "0 \<le> \<lfloor>v\<rfloor>" "\<lfloor>v\<rfloor> \<le> n"
    using assms by (simp_all add: floor_le_iff)
  with True show ?thesis by (simp add: c_trunc_def)
next
  case False
  then have "\<lceil>v\<rceil> \<le> 0" "- n \<le> \<lceil>v\<rceil>"
    using assms by (simp_all add: ceiling_le_iff le_ceiling_iff)
  with False show ?thesis by (simp add: c_trunc_def)
qed

lemma c_trunc_bound_rev:
  assumes "\<bar>c_trunc v\<bar> < n"
  shows "\<bar>v\<bar> < of_int n"
proof (cases "0 \<le> v")
  case True
  with assms have "\<lfloor>v\<rfloor> < n" by (simp add: c_trunc_def)
  then have "v < of_int n" by (simp add: floor_less_iff)
  with True show ?thesis by simp
next
  case False
  with assms have "- n < \<lceil>v\<rceil>" by (simp add: c_trunc_def)
  then have "of_int (- n) < v" by (simp only: less_ceiling_iff)
  with False show ?thesis by simp
qed

lemma grid_cell_exact:
  assumes "binary32 v" and "\<bar>v\<bar> < 80 * 2 ^ 22"
  shows "grid_cell v = Some (c_trunc (v / 80))"
proof -
  have "\<bar>v / 80\<bar> < of_int (2 ^ 22)"
    using assms(2) by simp
  then have "\<bar>c_trunc (v / 80)\<bar> \<le> 2 ^ 22"
    by (rule c_trunc_bound)
  then have "int_range (c_trunc (v / 80))"
    by (simp add: int_range_def abs_le_iff)
  then show ?thesis
    by (simp add: grid_cell_eq quantization_exact [OF assms])
qed

lemma grid_cell_near:
  assumes "grid_cell v = Some k" and "\<bar>k\<bar> < 2 ^ 22"
  shows "\<bar>v\<bar> < 80 * 2 ^ 22"
proof (rule ccontr)
  assume "\<not> \<bar>v\<bar> < 80 * 2 ^ 22"
  then have "2 ^ 22 \<le> \<bar>c_trunc (fl32 (v / 80))\<bar>"
    by (intro quantization_far) simp
  moreover from assms(1) have "c_trunc (fl32 (v / 80)) = k"
    by (simp add: grid_cell_eq split: if_splits)
  ultimately show False
    using assms(2) by simp
qed

lemma grid_cell_Some_iff:
  assumes "binary32 v" and "\<bar>k\<bar> < 2 ^ 22"
  shows "grid_cell v = Some k \<longleftrightarrow> c_trunc (v / 80) = k"
proof
  assume g: "grid_cell v = Some k"
  from grid_cell_exact [OF assms(1) grid_cell_near [OF g assms(2)]] g
  show "c_trunc (v / 80) = k" by simp
next
  assume c: "c_trunc (v / 80) = k"
  with assms(2) have "\<bar>c_trunc (v / 80)\<bar> < 2 ^ 22"
    by simp
  then have "\<bar>v / 80\<bar> < of_int (2 ^ 22)"
    by (rule c_trunc_bound_rev)
  then have "\<bar>v\<bar> < 80 * 2 ^ 22"
    by simp
  from grid_cell_exact [OF assms(1) this] c show "grid_cell v = Some k"
    by simp
qed

lemma grid_cell_huge:
  assumes "80 * 2 ^ 31 \<le> \<bar>v\<bar>" and "grid_cell v = Some k"
  shows "2 ^ 31 \<le> \<bar>k\<bar>"
proof -
  have pos: "2 ^ 31 \<le> c_trunc (fl32 (w / 80))" if "80 * 2 ^ 31 \<le> w" for w :: real
  proof -
    have "of_int 1 * 2 powi 31 \<le> w / 80"
      using that by simp
    then have "of_int 1 * 2 powi 31 \<le> fl32 (w / 80)"
      by (rule fl32_ge) simp_all
    then have "2 ^ 31 \<le> \<lfloor>fl32 (w / 80)\<rfloor>" "0 \<le> fl32 (w / 80)"
      by (simp_all add: le_floor_iff)
    then show ?thesis
      by (simp add: c_trunc_def)
  qed
  have "2 ^ 31 \<le> \<bar>c_trunc (fl32 (v / 80))\<bar>"
  proof (cases "0 \<le> v")
    case True
    with assms(1) pos [of v] show ?thesis by simp
  next
    case False
    with assms(1) pos [of "- v"] have "2 ^ 31 \<le> c_trunc (fl32 (- (v / 80)))"
      by simp
    then show ?thesis
      by (simp add: fl32_minus c_trunc_minus)
  qed
  moreover from assms(2) have "c_trunc (fl32 (v / 80)) = k"
    by (simp add: grid_cell_eq split: if_splits)
  ultimately show ?thesis by simp
qed

lemma binary32_numeral: "numeral w \<le> (2 ^ 24 :: int) \<Longrightarrow> binary32 (numeral w)"
  using binary32_of_int [of "numeral w"] by simp

lemma binary32_neg_numeral: "numeral w \<le> (2 ^ 24 :: int) \<Longrightarrow> binary32 (- numeral w)"
  using binary32_of_int [of "- numeral w"] by simp

lemma binary32_0: "binary32 0"
  using binary32_of_int [of 0] by simp

lemma grid_cell_0: "grid_cell 0 = Some 0"
  using grid_cell_exact [OF binary32_0] by (simp add: c_trunc_def)

lemma grid_cell_79: "grid_cell 79 = Some 0"
  using grid_cell_exact [of 79] by (simp add: binary32_numeral c_trunc_def)

lemma grid_cell_80: "grid_cell 80 = Some 1"
  using grid_cell_exact [of 80] by (simp add: binary32_numeral c_trunc_def)

lemma grid_cell_159: "grid_cell 159 = Some 1"
  using grid_cell_exact [of 159] by (simp add: binary32_numeral c_trunc_def)

lemma grid_cell_160: "grid_cell 160 = Some 2"
  using grid_cell_exact [of 160] by (simp add: binary32_numeral c_trunc_def)

lemma grid_cell_neg_79: "grid_cell (- 79) = Some 0"
  using grid_cell_exact [of "- 79"] by (simp add: binary32_neg_numeral c_trunc_def)

lemma grid_cell_neg_80: "grid_cell (- 80) = Some (- 1)"
  using grid_cell_exact [of "- 80"] by (simp add: binary32_neg_numeral c_trunc_def ceiling_def)

lemma grid_cell_500: "grid_cell 500 = Some 6"
  using grid_cell_exact [of 500] by (simp add: binary32_numeral c_trunc_def)

lemma grid_cell_300: "grid_cell 300 = Some 3"
  using grid_cell_exact [of 300] by (simp add: binary32_numeral c_trunc_def)

lemma force_cell_0_0:
  "grid_cell x = Some 0 \<Longrightarrow> grid_cell y = Some 0 \<Longrightarrow>
   GetVectorFieldForce x y t = Some \<lparr>vec_x = FLOW_STRENGTH, vec_y = 0\<rparr>"
  by (simp add: GetVectorFieldForce_def field_angle_grid_cell int_result_def int_range_def)

lemma sin_cell_1_0: "sin (99883 / 100000 * 2 * pi) < 0"
proof -
  have "sin (99883 / 100000 * 2 * pi) = sin (- (117 / 100000 * 2 * pi) + 2 * pi)"
    by (simp add: algebra_simps)
  also have "\<dots> = - sin (117 / 100000 * 2 * pi)"
    by (simp only: sin_periodic sin_minus)
  finally have eq: "sin (99883 / 100000 * 2 * pi) = - sin (117 / 100000 * 2 * pi)" .
  have "0 < sin (117 / 100000 * 2 * pi)"
    by (rule sin_gt_zero) (use pi_gt_zero in auto)
  with eq show ?thesis by simp
qed

lemma force_cell_1_0:
  "grid_cell x = Some 1 \<Longrightarrow> grid_cell y = Some 0 \<Longrightarrow>
   GetVectorFieldForce x y t =
     Some \<lparr>vec_x = cos (99883 / 100000 * 2 * pi) * FLOW_STRENGTH,
           vec_y = sin (99883 / 100000 * 2 * pi) * FLOW_STRENGTH\<rparr>"
  by (simp add: GetVectorFieldForce_def field_angle_grid_cell int_result_def int_range_def PI_def)

lemma field_angle_Some:
  "grid_cell x = Some ix \<Longrightarrow> grid_cell y = Some iy \<Longrightarrow>
   int_range (ix * 13) \<Longrightarrow> int_range (iy * 23) \<Longrightarrow> ix * 13 + iy * 23 = s \<Longrightarrow> int_range s \<Longrightarrow>
   field_angle x y =
     Some (real_of_int ((((s mod 2 ^ 32) * 99991) mod 2 ^ 32) mod 100000) / 100000 * 2 * PI)"
  using seed_word [of s] by (simp add: field_angle_grid_cell int_result_def)

lemma fl32_far_quotient: "fl32 (335544384 / 80) = 4194305"
  using fl32_eqI [of 22 "335544384 / 80" "- 1"] by (simp add: round_even_def Let_def)

lemma grid_cell_far: "grid_cell 335544384 = Some 4194305"
  unfolding grid_cell_eq fl32_far_quotient by (simp add: c_trunc_def int_range_def)

lemma force_of_cells:
  assumes "grid_cell x = Some ix" and "grid_cell y = Some iy"
    and "int_range (ix * 13)" and "int_range (iy * 23)"
    and "ix * 13 + iy * 23 = s" and "int_range s"
    and "(((s mod 2 ^ 32) * 99991) mod 2 ^ 32) mod 100000 = a"
  shows "GetVectorFieldForce x y t =
     Some \<lparr>vec_x = cos (real_of_int a / 100000 * 2 * pi) * FLOW_STRENGTH,
           vec_y = sin (real_of_int a / 100000 * 2 * pi) * FLOW_STRENGTH\<rparr>"
  using field_angle_Some [OF assms(1-6)] assms(7)
  by (simp add: GetVectorFieldForce_def PI_def)

lemma force_cell_neg_1_0:
  "grid_cell x = Some (- 1) \<Longrightarrow> grid_cell y = Some 0 \<Longrightarrow>
   GetVectorFieldForce x y t =
     Some \<lparr>vec_x = cos (67413 / 100000 * 2 * pi) * FLOW_STRENGTH,
           vec_y = sin (67413 / 100000 * 2 * pi) * FLOW_STRENGTH\<rparr>"
  using force_of_cells [of x "- 1" y 0 "- 13" 67413 t] by (simp add: int_range_def)

lemma force_cell_2_0:
  "grid_cell x = Some 2 \<Longrightarrow> grid_cell y = Some 0 \<Longrightarrow>
   GetVectorFieldForce x y t =
     Some \<lparr>vec_x = cos (99766 / 100000 * 2 * pi) * FLOW_STRENGTH,
           vec_y = sin (99766 / 100000 * 2 * pi) * FLOW_STRENGTH\<rparr>"
  using force_of_cells [of x 2 y 0 26 99766 t] by (simp add: int_range_def)

lemma force_500_300:
  "GetVectorFieldForce 500 300 t =
     Some \<lparr>vec_x = cos (98677 / 100000 * 2 * pi) * FLOW_STRENGTH,
           vec_y = sin (98677 / 100000 * 2 * pi) * FLOW_STRENGTH\<rparr>"
  using force_of_cells [OF grid_cell_500 grid_cell_300, of 147 98677 t]
  by (simp add: int_range_def)

lemma sin_cell_neg_1_0: "sin (67413 / 100000 * 2 * pi) < 0"
proof -
  have "sin (67413 / 100000 * 2 * pi) = sin (17413 / 100000 * 2 * pi + pi)"
    by (simp add: algebra_simps)
  also have "\<dots> = - sin (17413 / 100000 * 2 * pi)"
    by (simp only: sin_periodic_pi)
  finally have eq: "sin (67413 / 100000 * 2 * pi) = - sin (17413 / 100000 * 2 * pi)" .
  have "0 < sin (17413 / 100000 * 2 * pi)"
    by (rule sin_gt_zero) (use pi_gt_zero in auto)
  with eq show ?thesis by simp
qed

lemma sin_cell_2_0: "sin (99766 / 100000 * 2 * pi) \<noteq> sin (99883 / 100000 * 2 * pi)"
proof
  assume e: "sin (99766 / 100000 * 2 * pi) = sin (99883 / 100000 * 2 * pi)"
  have "sin (99766 / 100000 * 2 * pi) = sin (- (234 / 100000 * 2 * pi) + 2 * pi)"
    by (simp add: algebra_simps)
  also have "\<dots> = sin (- (234 / 100000 * 2 * pi))"
    by (simp only: sin_periodic)
  finally have a: "sin (99766 / 100000 * 2 * pi) = sin (- (234 / 100000 * 2 * pi))" .
  have "sin (99883 / 100000 * 2 * pi) = sin (- (117 / 100000 * 2 * pi) + 2 * pi)"
    by (simp add: algebra_simps)
  also have "\<dots> = sin (- (117 / 100000 * 2 * pi))"
    by (simp only: sin_periodic)
  finally have b: "sin (99883 / 100000 * 2 * pi) = sin (- (117 / 100000 * 2 * pi))" .
  have "- (234 / 100000 * 2 * pi) = - (117 / 100000 * 2 * pi)"
  proof (rule sin_inj_pi)
    show "sin (- (234 / 100000 * 2 * pi)) = sin (- (117 / 100000 * 2 * pi))"
      using e a b by simp
  qed (use pi_gt_zero in linarith)+
  then show False
    using pi_gt_zero by simp
qed

subsection \<open>One force per grid cell\<close>

text \<open>
  Claim C1. Two positions that quantize to the same grid cell \<open>(ix, iy)\<close> get
  the same force, whatever the two time arguments are: the force is a function
  of the cell alone. With cells of size 80 the forces at \<open>(0,0)\<close> and
  \<open>(79,79)\<close> are equal (and defined), and the force at \<open>(80,0)\<close>, in the next
  cell, is a different vector.
\<close>

theorem same_cell_same_force:
  "(grid_cell x1 = Some ix \<and> grid_cell x2 = Some ix \<and>
    grid_cell y1 = Some iy \<and> grid_cell y2 = Some iy \<longrightarrow>
      GetVectorFieldForce x1 y1 t1 = GetVectorFieldForce x2 y2 t2) \<and>
   GetVectorFieldForce 0 0 t1 = GetVectorFieldForce 79 79 t2 \<and>
   GetVectorFieldForce 0 0 t1 \<noteq> None \<and>
   GetVectorFieldForce 80 0 t1 \<noteq> None \<and>
   GetVectorFieldForce 80 0 t1 \<noteq> GetVectorFieldForce 0 0 t2"
proof -
  have general: "grid_cell x1 = Some ix \<and> grid_cell x2 = Some ix \<and>
    grid_cell y1 = Some iy \<and> grid_cell y2 = Some iy \<longrightarrow>
      GetVectorFieldForce x1 y1 t1 = GetVectorFieldForce x2 y2 t2"
    by (simp add: GetVectorFieldForce_def field_angle_grid_cell)
  have a: "GetVectorFieldForce 0 0 t1 = Some \<lparr>vec_x = FLOW_STRENGTH, vec_y = 0\<rparr>"
    by (rule force_cell_0_0 [OF grid_cell_0 grid_cell_0])
  have a': "GetVectorFieldForce 0 0 t2 = Some \<lparr>vec_x = FLOW_STRENGTH, vec_y = 0\<rparr>"
    by (rule force_cell_0_0 [OF grid_cell_0 grid_cell_0])
  have b: "GetVectorFieldForce 79 79 t2 = Some \<lparr>vec_x = FLOW_STRENGTH, vec_y = 0\<rparr>"
    by (rule force_cell_0_0 [OF grid_cell_79 grid_cell_79])
  have c: "GetVectorFieldForce 80 0 t1 =
     Some \<lparr>vec_x = cos (99883 / 100000 * 2 * pi) * FLOW_STRENGTH,
           vec_y = sin (99883 / 100000 * 2 * pi) * FLOW_STRENGTH\<rparr>"
    by (rule force_cell_1_0 [OF grid_cell_80 grid_cell_0])
  have d: "sin (99883 / 100000 * 2 * pi) * FLOW_STRENGTH \<noteq> 0"
    using sin_cell_1_0 by (simp add: FLOW_STRENGTH_def)
  from general a a' b c d show ?thesis by simp
qed

theorem same_cell_same_force_witness:
  "grid_cell 0 = Some 0 \<and> grid_cell 79 = Some 0 \<and>
   GetVectorFieldForce 0 0 0 = GetVectorFieldForce 79 79 1"
  using same_cell_same_force [of 0 0 79 0 0 79 0 1] grid_cell_0 grid_cell_79 by simp

subsection \<open>The angle against its reference definition\<close>

text \<open>
  Claim C2, as amended. For a binary32 position \<open>(x, y)\<close> with \<open>\<bar>x\<bar>\<close> and
  \<open>\<bar>y\<bar>\<close> below \<open>80 * 2^22 = 335544320\<close>, the angle computed by
  \<open>GetVectorFieldForce\<close> is the reference angle: \<open>ix\<close> and \<open>iy\<close> are
  \<open>x / 80\<close> and \<open>y / 80\<close> truncated toward zero, the seed is the unsigned
  32-bit value of \<open>ix*13 + iy*23\<close> and the angle is
  \<open>((seed * 99991 mod 2^32) mod 100000) / 100000 * 2\<pi>\<close>. Below that bound the
  rounding of the quotient to binary32 never changes its integral part, and
  the signed arithmetic of the seed stays in range. When \<open>\<bar>x\<bar>\<close> or \<open>\<bar>y\<bar>\<close>
  is \<open>80 * 2^31\<close> or more, the computation has no defined result: the
  conversion to \<open>int\<close> or the signed product that follows it is out of range.
\<close>

theorem field_angle_reference:
  "(binary32 x \<and> binary32 y \<and> \<bar>x\<bar> < 80 * 2 ^ 22 \<and> \<bar>y\<bar> < 80 * 2 ^ 22 \<longrightarrow>
      field_angle x y = Some (reference_angle x y)) \<and>
   (80 * 2 ^ 31 \<le> \<bar>x\<bar> \<or> 80 * 2 ^ 31 \<le> \<bar>y\<bar> \<longrightarrow> field_angle x y = None)"
proof (intro conjI impI)
  assume "binary32 x \<and> binary32 y \<and> \<bar>x\<bar> < 80 * 2 ^ 22 \<and> \<bar>y\<bar> < 80 * 2 ^ 22"
  then have x: "binary32 x" "\<bar>x\<bar> < 80 * 2 ^ 22" and y: "binary32 y" "\<bar>y\<bar> < 80 * 2 ^ 22"
    by simp_all
  define ix where "ix = c_trunc (x / 80)"
  define iy where "iy = c_trunc (y / 80)"
  have gx: "grid_cell x = Some ix" and gy: "grid_cell y = Some iy"
    unfolding ix_def iy_def by (rule grid_cell_exact [OF x], rule grid_cell_exact [OF y])
  have "\<bar>x / 80\<bar> < of_int (2 ^ 22)" "\<bar>y / 80\<bar> < of_int (2 ^ 22)"
    using x(2) y(2) by simp_all
  then have "\<bar>ix\<bar> \<le> 2 ^ 22" "\<bar>iy\<bar> \<le> 2 ^ 22"
    unfolding ix_def iy_def by (simp_all only: c_trunc_bound)
  then have r: "int_range (ix * 13)" "int_range (iy * 23)" "int_range (ix * 13 + iy * 23)"
    by (simp_all add: int_range_def abs_le_iff)
  have "field_angle x y =
      Some (real_of_int (((((ix * 13 + iy * 23) mod 2 ^ 32) * 99991) mod 2 ^ 32) mod 100000)
              / 100000 * 2 * PI)"
    using gx gy r(1,2) refl r(3) by (rule field_angle_Some)
  also have "\<dots> = Some (reference_angle x y)"
    by (simp add: reference_angle_def Let_def ix_def iy_def PI_def
        c_trunc_eq_trunc_toward_zero)
  finally show "field_angle x y = Some (reference_angle x y)" .
next
  assume far: "80 * 2 ^ 31 \<le> \<bar>x\<bar> \<or> 80 * 2 ^ 31 \<le> \<bar>y\<bar>"
  have ox: "int_result (k * 13) = None" if "2 ^ 31 \<le> \<bar>k\<bar>" for k :: int
    using that by (auto simp: int_result_def int_range_def)
  have oy: "int_result (k * 23) = None" if "2 ^ 31 \<le> \<bar>k\<bar>" for k :: int
    using that by (auto simp: int_result_def int_range_def)
  show "field_angle x y = None"
  proof (cases "grid_cell x")
    case None
    then show ?thesis by (simp add: field_angle_grid_cell)
  next
    case sx: (Some ix)
    show ?thesis
    proof (cases "grid_cell y")
      case None
      with sx show ?thesis by (simp add: field_angle_grid_cell)
    next
      case sy: (Some iy)
      have "int_result (ix * 13) = None \<or> int_result (iy * 23) = None"
      proof (rule disjE [OF far])
        assume "80 * 2 ^ 31 \<le> \<bar>x\<bar>"
        then have "int_result (ix * 13) = None"
          using sx by (intro ox grid_cell_huge)
        then show ?thesis ..
      next
        assume "80 * 2 ^ 31 \<le> \<bar>y\<bar>"
        then have "int_result (iy * 23) = None"
          using sy by (intro oy grid_cell_huge)
        then show ?thesis ..
      qed
      with sx sy show ?thesis
        by (auto simp: field_angle_grid_cell split: bind_splits)
    qed
  qed
qed

theorem field_angle_reference_witness:
  "binary32 500 \<and> binary32 300 \<and> \<bar>500 :: real\<bar> < 80 * 2 ^ 22 \<and> \<bar>300 :: real\<bar> < 80 * 2 ^ 22 \<and>
   field_angle 500 300 = Some (reference_angle 500 300) \<and>
   reference_angle 500 300 = 98677 / 100000 * (2 * pi) \<and>
   80 * 2 ^ 31 \<le> \<bar>343597383680 :: real\<bar> \<and> field_angle 343597383680 0 = None"
  using field_angle_reference [of 500 300] field_angle_reference [of 343597383680 0]
  by (simp add: binary32_numeral trunc_toward_zero_def reference_angle_def Let_def)

text \<open>
  Claim C2 as stated, for every input position, does not hold. The coordinate
  \<open>x = 335544384\<close> is a binary32 value. The exact quotient \<open>x / 80\<close> is
  \<open>4194304.8\<close>, whose integral part is the reference cell \<open>4194304\<close>, with
  reference angle number 67808. Between \<open>2^22\<close> and \<open>2^23\<close> the binary32
  values are the multiples of one half, so the quotient of line 32 is
  \<open>4194305.0\<close>: the code takes cell \<open>4194305\<close> and angle number 67691,
  and the conversion and the signed arithmetic are in range.
\<close>

theorem field_angle_not_reference_everywhere:
  "binary32 335544384 \<and>
   field_angle 335544384 0 = Some (67691 / 100000 * 2 * PI) \<and>
   reference_angle 335544384 0 = 67808 / 100000 * (2 * pi) \<and>
   field_angle 335544384 0 \<noteq> Some (reference_angle 335544384 0)"
proof -
  have b: "binary32 335544384"
    using binary32_I [of 10485762 5 335544384] by simp
  have f: "field_angle 335544384 0 = Some (67691 / 100000 * 2 * PI)"
    using field_angle_Some [OF grid_cell_far grid_cell_0, of 54525965]
    by (simp add: int_range_def)
  have r: "reference_angle 335544384 0 = 67808 / 100000 * (2 * pi)"
    by (simp add: reference_angle_def trunc_toward_zero_def Let_def)
  have "(67691 / 100000 * 2 * PI :: real) \<noteq> 67808 / 100000 * (2 * pi)"
    using pi_gt_zero by (simp add: PI_def)
  with b f r show ?thesis by simp
qed

subsection \<open>Magnitude of the force\<close>

text \<open>
  Claim C3. Whenever \<open>GetVectorFieldForce\<close> returns a vector, for any position
  and any time, that vector is \<open>(cos angle, sin angle)\<close> of the hash angle
  scaled componentwise by \<open>FLOW_STRENGTH\<close>, and its Euclidean magnitude is
  \<open>FLOW_STRENGTH = 0.8\<close> (exactly so in real arithmetic).
\<close>

theorem force_magnitude:
  "GetVectorFieldForce x y t = Some v \<Longrightarrow>
     sqrt ((vec_x v)\<^sup>2 + (vec_y v)\<^sup>2) = FLOW_STRENGTH \<and> FLOW_STRENGTH = 8 / 10 \<and>
     (\<exists>angle. field_angle x y = Some angle \<and>
        v = \<lparr>vec_x = cos angle * FLOW_STRENGTH, vec_y = sin angle * FLOW_STRENGTH\<rparr>)"
proof -
  assume r: "GetVectorFieldForce x y t = Some v"
  then obtain angle where a: "field_angle x y = Some angle"
    and v: "v = \<lparr>vec_x = cos angle * FLOW_STRENGTH, vec_y = sin angle * FLOW_STRENGTH\<rparr>"
    by (auto simp: GetVectorFieldForce_def Let_def split: bind_splits)
  have "(vec_x v)\<^sup>2 + (vec_y v)\<^sup>2 =
        (cos angle)\<^sup>2 * FLOW_STRENGTH\<^sup>2 + (sin angle)\<^sup>2 * FLOW_STRENGTH\<^sup>2"
    by (simp add: v power_mult_distrib)
  also have "\<dots> = ((cos angle)\<^sup>2 + (sin angle)\<^sup>2) * FLOW_STRENGTH\<^sup>2"
    by (simp only: distrib_right)
  also have "\<dots> = FLOW_STRENGTH\<^sup>2"
    by simp
  finally have "sqrt ((vec_x v)\<^sup>2 + (vec_y v)\<^sup>2) = \<bar>FLOW_STRENGTH\<bar>"
    by simp
  moreover have "0 \<le> FLOW_STRENGTH" "FLOW_STRENGTH = 8 / 10"
    by (simp_all add: FLOW_STRENGTH_def)
  ultimately show ?thesis using a v by simp
qed

theorem force_magnitude_witness:
  "GetVectorFieldForce 500 300 0 =
     Some \<lparr>vec_x = cos (98677 / 100000 * 2 * pi) * FLOW_STRENGTH,
           vec_y = sin (98677 / 100000 * 2 * pi) * FLOW_STRENGTH\<rparr> \<and>
   sqrt ((cos (98677 / 100000 * 2 * pi) * FLOW_STRENGTH)\<^sup>2 +
         (sin (98677 / 100000 * 2 * pi) * FLOW_STRENGTH)\<^sup>2) = FLOW_STRENGTH"
proof -
  have r: "GetVectorFieldForce 500 300 0 =
     Some \<lparr>vec_x = cos (98677 / 100000 * 2 * pi) * FLOW_STRENGTH,
           vec_y = sin (98677 / 100000 * 2 * pi) * FLOW_STRENGTH\<rparr>"
    by (rule force_500_300)
  from force_magnitude [OF r] r show ?thesis by simp
qed

subsection \<open>The cell of the origin\<close>

text \<open>
  Claim C9, as amended. The conversion to \<open>int\<close> truncates toward zero, so a
  binary32 coordinate is in cell 0 exactly when it lies strictly between -80
  and 80, an interval of width 160. For \<open>0 < k < 2^22\<close> the binary32
  coordinates of cell \<open>k\<close> are those from \<open>80k\<close> (included) to \<open>80k + 80\<close>,
  and for \<open>-2^22 < m < 0\<close> those of cell \<open>m\<close> lie from \<open>80m - 80\<close> to
  \<open>80m\<close> (included): these cells have width 80. The force is a function of
  the two cells: two positions with the same cells get the same force, so
  every binary32 position with both coordinates strictly between -80 and 80
  gets the force of the origin, and the forces at \<open>(-79,-79)\<close> and
  \<open>(79,79)\<close> are the same vector. The cells are visible in the force: it
  changes from 79 to 80 and from -79 to -80, it is the same at 80 and 159,
  and it changes again from 159 to 160.
\<close>

theorem origin_cell_double_width:
  "(binary32 x \<longrightarrow> (grid_cell x = Some 0 \<longleftrightarrow> - 80 < x \<and> x < 80)) \<and>
   (binary32 x \<and> 0 < k \<and> k < 2 ^ 22 \<longrightarrow>
      (grid_cell x = Some k \<longleftrightarrow> 80 * of_int k \<le> x \<and> x < 80 * of_int k + 80)) \<and>
   (binary32 x \<and> m < 0 \<and> - (2 ^ 22) < m \<longrightarrow>
      (grid_cell x = Some m \<longleftrightarrow> 80 * of_int m - 80 < x \<and> x \<le> 80 * of_int m)) \<and>
   (grid_cell x = Some ix \<and> grid_cell y = Some iy \<and>
    grid_cell x' = Some ix \<and> grid_cell y' = Some iy \<longrightarrow>
      GetVectorFieldForce x y t = GetVectorFieldForce x' y' t) \<and>
   (binary32 x \<and> binary32 y \<and> - 80 < x \<and> x < 80 \<and> - 80 < y \<and> y < 80 \<longrightarrow>
      GetVectorFieldForce x y t = GetVectorFieldForce 0 0 t) \<and>
   GetVectorFieldForce (- 79) (- 79) t = GetVectorFieldForce 79 79 t \<and>
   GetVectorFieldForce 79 79 t \<noteq> None \<and>
   GetVectorFieldForce 80 0 t \<noteq> GetVectorFieldForce 79 0 t \<and>
   GetVectorFieldForce (- 80) 0 t \<noteq> GetVectorFieldForce (- 79) 0 t \<and>
   GetVectorFieldForce 159 0 t = GetVectorFieldForce 80 0 t \<and>
   GetVectorFieldForce 160 0 t \<noteq> GetVectorFieldForce 159 0 t"
proof -
  have z: "grid_cell v = Some 0 \<longleftrightarrow> - 80 < v \<and> v < 80" if "binary32 v" for v
    using grid_cell_Some_iff [OF that, of 0] c_trunc_zero_iff [of "v / 80"] by simp
  have p: "binary32 x \<and> 0 < k \<and> k < 2 ^ 22 \<longrightarrow>
      (grid_cell x = Some k \<longleftrightarrow> 80 * of_int k \<le> x \<and> x < 80 * of_int k + 80)"
  proof (intro impI, elim conjE)
    assume k: "binary32 x" "0 < k" "k < 2 ^ 22"
    have "c_trunc (x / 80) = k \<longleftrightarrow> 80 * of_int k \<le> x \<and> x < 80 * of_int k + 80"
      using c_trunc_pos_iff [OF k(2), of "x / 80"] by (simp add: field_simps)
    moreover have "grid_cell x = Some k \<longleftrightarrow> c_trunc (x / 80) = k"
      using k by (intro grid_cell_Some_iff) simp_all
    ultimately show "grid_cell x = Some k \<longleftrightarrow> 80 * of_int k \<le> x \<and> x < 80 * of_int k + 80"
      by simp
  qed
  have n: "binary32 x \<and> m < 0 \<and> - (2 ^ 22) < m \<longrightarrow>
      (grid_cell x = Some m \<longleftrightarrow> 80 * of_int m - 80 < x \<and> x \<le> 80 * of_int m)"
  proof (intro impI, elim conjE)
    assume m: "binary32 x" "m < 0" "- (2 ^ 22) < m"
    have "c_trunc (x / 80) = m \<longleftrightarrow> 80 * of_int m - 80 < x \<and> x \<le> 80 * of_int m"
      using c_trunc_neg_iff [OF m(2), of "x / 80"] by (simp add: field_simps)
    moreover have "grid_cell x = Some m \<longleftrightarrow> c_trunc (x / 80) = m"
      using m by (intro grid_cell_Some_iff) simp_all
    ultimately show "grid_cell x = Some m \<longleftrightarrow> 80 * of_int m - 80 < x \<and> x \<le> 80 * of_int m"
      by simp
  qed
  have s: "grid_cell x = Some ix \<and> grid_cell y = Some iy \<and>
    grid_cell x' = Some ix \<and> grid_cell y' = Some iy \<longrightarrow>
      GetVectorFieldForce x y t = GetVectorFieldForce x' y' t"
    by (simp add: GetVectorFieldForce_def field_angle_grid_cell)
  have f: "GetVectorFieldForce u w t = Some \<lparr>vec_x = FLOW_STRENGTH, vec_y = 0\<rparr>"
    if "binary32 u" "binary32 w" "- 80 < u" "u < 80" "- 80 < w" "w < 80" for u w
    using that by (intro force_cell_0_0) (simp_all add: z)
  have o: "binary32 x \<and> binary32 y \<and> - 80 < x \<and> x < 80 \<and> - 80 < y \<and> y < 80 \<longrightarrow>
      GetVectorFieldForce x y t = GetVectorFieldForce 0 0 t"
    using f [of x y] f [of 0 0] binary32_0 by simp
  have c0: "GetVectorFieldForce 79 79 t = Some \<lparr>vec_x = FLOW_STRENGTH, vec_y = 0\<rparr>"
    by (rule force_cell_0_0 [OF grid_cell_79 grid_cell_79])
  have c1: "GetVectorFieldForce (- 79) (- 79) t = Some \<lparr>vec_x = FLOW_STRENGTH, vec_y = 0\<rparr>"
    by (rule force_cell_0_0 [OF grid_cell_neg_79 grid_cell_neg_79])
  have c2: "GetVectorFieldForce 79 0 t = Some \<lparr>vec_x = FLOW_STRENGTH, vec_y = 0\<rparr>"
    by (rule force_cell_0_0 [OF grid_cell_79 grid_cell_0])
  have c3: "GetVectorFieldForce (- 79) 0 t = Some \<lparr>vec_x = FLOW_STRENGTH, vec_y = 0\<rparr>"
    by (rule force_cell_0_0 [OF grid_cell_neg_79 grid_cell_0])
  have c4: "GetVectorFieldForce 80 0 t =
     Some \<lparr>vec_x = cos (99883 / 100000 * 2 * pi) * FLOW_STRENGTH,
           vec_y = sin (99883 / 100000 * 2 * pi) * FLOW_STRENGTH\<rparr>"
    by (rule force_cell_1_0 [OF grid_cell_80 grid_cell_0])
  have c5: "GetVectorFieldForce 159 0 t =
     Some \<lparr>vec_x = cos (99883 / 100000 * 2 * pi) * FLOW_STRENGTH,
           vec_y = sin (99883 / 100000 * 2 * pi) * FLOW_STRENGTH\<rparr>"
    by (rule force_cell_1_0 [OF grid_cell_159 grid_cell_0])
  have c6: "GetVectorFieldForce (- 80) 0 t =
     Some \<lparr>vec_x = cos (67413 / 100000 * 2 * pi) * FLOW_STRENGTH,
           vec_y = sin (67413 / 100000 * 2 * pi) * FLOW_STRENGTH\<rparr>"
    by (rule force_cell_neg_1_0 [OF grid_cell_neg_80 grid_cell_0])
  have c7: "GetVectorFieldForce 160 0 t =
     Some \<lparr>vec_x = cos (99766 / 100000 * 2 * pi) * FLOW_STRENGTH,
           vec_y = sin (99766 / 100000 * 2 * pi) * FLOW_STRENGTH\<rparr>"
    by (rule force_cell_2_0 [OF grid_cell_160 grid_cell_0])
  have d1: "sin (99883 / 100000 * 2 * pi) * FLOW_STRENGTH \<noteq> 0"
    using sin_cell_1_0 by (simp add: FLOW_STRENGTH_def)
  have d2: "sin (67413 / 100000 * 2 * pi) * FLOW_STRENGTH \<noteq> 0"
    using sin_cell_neg_1_0 by (simp add: FLOW_STRENGTH_def)
  have d3: "sin (99766 / 100000 * 2 * pi) * FLOW_STRENGTH \<noteq>
            sin (99883 / 100000 * 2 * pi) * FLOW_STRENGTH"
    using sin_cell_2_0 by (simp add: FLOW_STRENGTH_def)
  have e1: "GetVectorFieldForce (- 79) (- 79) t = GetVectorFieldForce 79 79 t"
    "GetVectorFieldForce 79 79 t \<noteq> None"
    by (simp_all add: c0 c1)
  have e2: "GetVectorFieldForce 80 0 t \<noteq> GetVectorFieldForce 79 0 t"
    using d1 by (simp add: c2 c4)
  have e3: "GetVectorFieldForce (- 80) 0 t \<noteq> GetVectorFieldForce (- 79) 0 t"
    using d2 by (simp add: c3 c6)
  have e4: "GetVectorFieldForce 159 0 t = GetVectorFieldForce 80 0 t"
    by (simp add: c4 c5)
  have e5: "GetVectorFieldForce 160 0 t \<noteq> GetVectorFieldForce 159 0 t"
    using d3 by (simp add: c5 c7)
  from z [of x] p n s o e1 e2 e3 e4 e5 show ?thesis by blast
qed

theorem origin_cell_double_width_witness:
  "binary32 79 \<and> binary32 (- 79) \<and> (0::int) < 1 \<and> (1::int) < 2 ^ 22 \<and>
   (- 1::int) < 0 \<and> - (2 ^ 22) < (- 1::int) \<and>
   grid_cell 79 = Some 0 \<and> grid_cell 79 \<noteq> Some 1 \<and> grid_cell 79 \<noteq> Some (- 1) \<and>
   grid_cell (- 79) = Some 0 \<and> grid_cell 0 = Some 0 \<and>
   GetVectorFieldForce 79 (- 79) 0 = GetVectorFieldForce 0 0 0"
  using origin_cell_double_width [of 79 1 "- 1" 0 "- 79" 0 0 0 0]
  by (simp add: binary32_numeral binary32_neg_numeral grid_cell_0 grid_cell_neg_79)

text \<open>
  Claim C9 as stated gives every cell other than the cell of the origin the
  same width. The binary32 coordinate \<open>335544384\<close> lies in the interval from
  \<open>80 * 4194304 = 335544320\<close> to \<open>80 * 4194304 + 80\<close>, yet line 32 puts it
  in cell \<open>4194305\<close>, because the quotient \<open>4194304.8\<close> is rounded to
  \<open>4194305.0\<close>: cell \<open>4194304\<close> starts at \<open>335544320\<close> and ends before
  \<open>335544384\<close>, so it is not as wide as 80.
\<close>

theorem far_cell_narrower:
  "binary32 335544320 \<and> binary32 335544384 \<and>
   grid_cell 335544320 = Some 4194304 \<and>
   80 * real_of_int 4194304 \<le> 335544384 \<and> (335544384::real) < 80 * real_of_int 4194304 + 80 \<and>
   grid_cell 335544384 = Some 4194305 \<and>
   grid_cell 335544384 \<noteq> Some 4194304"
proof -
  have a: "binary32 335544320"
    using binary32_I [of 5 26 335544320] by simp
  have b: "binary32 335544384"
    using binary32_I [of 10485762 5 335544384] by simp
  have c: "grid_cell 335544320 = Some 4194304"
    using fl32_of_int [of 4194304] by (simp add: grid_cell_eq c_trunc_def int_range_def)
  from a b c grid_cell_far show ?thesis by simp
qed

section \<open>Properties of the particle system\<close>

subsection \<open>Conversions to \<open>unsigned char\<close>\<close>





subsection \<open>Rounding in the colour conversions\<close>
















subsection \<open>One slot of the update\<close>











subsection \<open>The loops over the pool\<close>







lemma count_from_eq:
  "length ps = MAX_PARTICLES \<Longrightarrow>
   count_from i n ps = n + length (filter active (drop i ps))"
proof (induction i n ps rule: count_from.induct)
  case (1 i n ps)
  show ?case
  proof (cases "i < MAX_PARTICLES")
    case False
    with "1.prems" show ?thesis by (simp add: count_from.simps [of i])
  next
    case True
    with "1.prems" have d: "drop i ps = ps ! i # drop (i + 1) ps"
      by (simp add: Cons_nth_drop_Suc)
    from True "1.IH" "1.prems" show ?thesis
      by (simp add: count_from.simps [of i] d)
  qed
qed

lemma active_count_eq:
  "length ps = MAX_PARTICLES \<Longrightarrow> active_count ps = length (filter active ps)"
  by (simp add: active_count_def count_from_eq)

lemma length_filter_nth:
  "length (filter (\<lambda>l. P (xs ! l)) [0..<length xs]) = length (filter P xs)"
proof -
  have "filter P xs = filter P (map ((!) xs) [0..<length xs])"
    by (simp add: map_nth)
  also have "\<dots> = map ((!) xs) (filter (\<lambda>l. P (xs ! l)) [0..<length xs])"
    by (simp add: filter_map comp_def)
  finally show ?thesis by simp
qed

lemma active_count_free_before:
  assumes "length ps = MAX_PARTICLES"
  shows "active_count ps + free_before ps MAX_PARTICLES = MAX_PARTICLES"
proof -
  have "free_before ps MAX_PARTICLES = length (filter (\<lambda>p. \<not> active p) ps)"
    unfolding free_before_def assms [symmetric] by (rule length_filter_nth)
  with sum_length_filter_compl [of active ps] assms show ?thesis
    by (simp add: active_count_eq)
qed

subsection \<open>The example pools\<close>

lemma length_initial_particles: "length initial_particles = MAX_PARTICLES"
  by (simp add: initial_particles_def)

lemma initial_particles_inactive: "j < MAX_PARTICLES \<Longrightarrow> \<not> active (initial_particles ! j)"
  by (simp add: initial_particles_def)

lemma length_example_pool: "length example_pool = MAX_PARTICLES"
  by (simp add: example_pool_def length_initial_particles)


lemma MAX_PARTICLES_pos: "0 < MAX_PARTICLES" "1 < MAX_PARTICLES"
  by (simp_all add: MAX_PARTICLES_def)


lemma example_pool_0: "example_pool ! 0 = example_particle"
  by (simp add: example_pool_def length_initial_particles MAX_PARTICLES_pos)

lemma example_particle_simps:
  "active example_particle" "life example_particle = 1"
  "position example_particle = \<lparr>vec_x = 500, vec_y = 300\<rparr>"
  "velocity example_particle = \<lparr>vec_x = 0, vec_y = 0\<rparr>"
  "color example_particle = \<lparr>col_r = 0, col_g = 180, col_b = 255, col_a = 255\<rparr>"
  by (simp_all add: example_particle_def spawned_def)

lemma active_count_example_pool: "active_count example_pool = 1"
proof -
  have "filter active ((replicate n z)[0 := e]) = [e]" if "0 < n" "\<not> active z" "active e"
    for n and z e :: Particle
    using that by (cases n) simp_all
  then have "filter active example_pool = [example_particle]"
    unfolding example_pool_def initial_particles_def
    by (simp add: MAX_PARTICLES_pos example_particle_simps)
  then show ?thesis
    by (simp add: active_count_eq length_example_pool)
qed

lemma example_rnd_range: "\<forall>n. - 10 \<le> example_rnd n \<and> example_rnd n \<le> 10"
  by (auto simp: example_rnd_def)

subsection \<open>Force, damping and position\<close>



subsection \<open>Decay of life\<close>



subsection \<open>Colour\<close>





lemma fl32_binary32: "binary32 x \<Longrightarrow> fl32 x = x"
  by (simp add: binary32_def)




subsection \<open>Deactivation\<close>



subsection \<open>Range of the colour conversions\<close>




subsection \<open>The emitter\<close>

lemma spawned_update:
  "(q::Particle)\<lparr>active := True, life := 1,
       position := \<lparr>vec_x = vec_x mousePos + real_of_int jx,
                    vec_y = vec_y mousePos + real_of_int jy\<rparr>,
       velocity := \<lparr>vec_x = 0, vec_y = 0\<rparr>,
       color := \<lparr>col_r = 0, col_g = 180, col_b = 255, col_a = 255\<rparr>\<rparr> =
   spawned mousePos jx jy"
  by (cases q) (simp add: spawned_def)

lemma spawn_scan_hit:
  "m < MAX_PARTICLES \<Longrightarrow> \<not> active (ps ! m) \<Longrightarrow>
   spawn_scan m mousePos rnd k ps = (ps[m := spawned mousePos (rnd k) (rnd (k + 1))], k + 2)"
  by (simp add: spawn_scan.simps [of m] spawned_update)

lemma spawn_scan_skip:
  "j \<le> m \<Longrightarrow> m \<le> MAX_PARTICLES \<Longrightarrow> (\<forall>l. j \<le> l \<and> l < m \<longrightarrow> active (ps ! l)) \<Longrightarrow>
   spawn_scan j mousePos rnd k ps = spawn_scan m mousePos rnd k ps"
proof (induction rule: inc_induct)
  case base
  show ?case by simp
next
  case (step n)
  then have "spawn_scan n mousePos rnd k ps = spawn_scan (n + 1) mousePos rnd k ps"
    by (simp add: spawn_scan.simps [of n])
  with step show ?case by simp
qed

lemma spawn_scan_first:
  assumes "m < MAX_PARTICLES" and "\<not> active (ps ! m)" and "\<forall>l < m. active (ps ! l)"
  shows "spawn_scan 0 mousePos rnd k ps =
           (ps[m := spawned mousePos (rnd k) (rnd (k + 1))], k + 2)"
  using spawn_scan_skip [of 0 m ps mousePos rnd k] spawn_scan_hit [OF assms(1,2)] assms
  by simp

lemma spawn_scan_full:
  assumes "\<forall>l < MAX_PARTICLES. active (ps ! l)"
  shows "spawn_scan 0 mousePos rnd k ps = (ps, k)"
  using spawn_scan_skip [of 0 MAX_PARTICLES ps mousePos rnd k] assms
  by (simp add: spawn_scan.simps [of MAX_PARTICLES])

lemma free_before_0: "(\<forall>l < m. active (ps ! l)) \<Longrightarrow> free_before ps m = 0"
  by (simp add: free_before_def)

lemma free_before_all_active:
  "(\<forall>l < MAX_PARTICLES. active (ps ! l)) \<Longrightarrow> j \<le> MAX_PARTICLES \<Longrightarrow> free_before ps j = 0"
  by (simp add: free_before_def)

lemma free_before_update_less:
  assumes "m < j" and "m < length ps" and "\<not> active (ps ! m)" and "active q"
  shows "free_before ps j = Suc (free_before (ps[m := q]) j)"
proof -
  have split: "[0..<j] = [0..<m] @ m # [Suc m..<j]"
    using assms(1) by (metis less_imp_le_nat upt_add_eq_append upt_conv_Cons le0 le_add_diff_inverse)
  have a: "filter (\<lambda>l. \<not> active (ps[m := q] ! l)) [0..<m] = filter (\<lambda>l. \<not> active (ps ! l)) [0..<m]"
    by (intro filter_cong) auto
  have b: "filter (\<lambda>l. \<not> active (ps[m := q] ! l)) [Suc m..<j] =
           filter (\<lambda>l. \<not> active (ps ! l)) [Suc m..<j]"
    by (intro filter_cong) auto
  show ?thesis
    unfolding free_before_def split using assms(2-4) by (simp add: a b)
qed

lemma first_free_slot:
  assumes "\<not> (\<forall>l < MAX_PARTICLES. active (ps ! l))"
  obtains m where "m < MAX_PARTICLES" "\<not> active (ps ! m)" "\<forall>l < m. active (ps ! l)"
proof -
  define m where "m = (LEAST l. l < MAX_PARTICLES \<and> \<not> active (ps ! l))"
  from assms have ex: "\<exists>l. l < MAX_PARTICLES \<and> \<not> active (ps ! l)"
    by blast
  have "m < MAX_PARTICLES \<and> \<not> active (ps ! m)"
    unfolding m_def using ex by (rule LeastI_ex)
  moreover have "active (ps ! l)" if "l < m" for l
  proof (rule ccontr)
    assume "\<not> active (ps ! l)"
    with that calculation have "l < MAX_PARTICLES \<and> \<not> active (ps ! l)"
      by simp
    then have "m \<le> l"
      unfolding m_def by (rule Least_le)
    with that show False by simp
  qed
  ultimately show thesis
    using that by blast
qed

lemma spawn_from_slots:
  assumes "length ps = MAX_PARTICLES" and "spawn_from i count mousePos rnd k ps = (ps', k')"
  shows "length ps' = MAX_PARTICLES \<and>
    k' = k + 2 * min (count - i) (free_before ps MAX_PARTICLES) \<and>
    free_before ps' MAX_PARTICLES =
      free_before ps MAX_PARTICLES - min (count - i) (free_before ps MAX_PARTICLES) \<and>
    (\<forall>j < MAX_PARTICLES. ps' ! j =
       (if \<not> active (ps ! j) \<and> free_before ps j < count - i
        then spawned mousePos (rnd (k + 2 * free_before ps j))
               (rnd (k + 2 * free_before ps j + 1))
        else ps ! j))"
  using assms
proof (induction i count mousePos rnd k ps rule: spawn_from.induct)
  case (1 i count mousePos rnd k ps)
  show ?case
  proof (cases "i < count")
    case False
    with "1.prems" show ?thesis
      by (simp add: spawn_from.simps [of i])
  next
    case True
    show ?thesis
    proof (cases "\<forall>l < MAX_PARTICLES. active (ps ! l)")
      case full: True
      then have scan: "spawn_scan 0 mousePos rnd k ps = (ps, k)"
        by (rule spawn_scan_full)
      with True "1.prems" have rest: "spawn_from (i + 1) count mousePos rnd k ps = (ps', k')"
        by (simp add: spawn_from.simps [of i])
      from "1.IH" [OF True scan [symmetric] "1.prems"(1) rest] full show ?thesis
        by (simp add: free_before_all_active)
    next
      case False
      then obtain m where m: "m < MAX_PARTICLES" "\<not> active (ps ! m)" "\<forall>l < m. active (ps ! l)"
        by (rule first_free_slot)
      define q where "q = spawned mousePos (rnd k) (rnd (k + 1))"
      have aq: "active q"
        by (simp add: q_def spawned_def)
      have scan: "spawn_scan 0 mousePos rnd k ps = (ps[m := q], k + 2)"
        unfolding q_def using m by (rule spawn_scan_first)
      with True "1.prems" have rest:
        "spawn_from (i + 1) count mousePos rnd (k + 2) (ps[m := q]) = (ps', k')"
        by (simp add: spawn_from.simps [of i])
      have len: "length (ps[m := q]) = MAX_PARTICLES"
        using "1.prems"(1) by simp
      from "1.IH" [OF True scan [symmetric] len rest]
      have l': "length ps' = MAX_PARTICLES"
        and k': "k' = k + 2 + 2 * min (count - (i + 1)) (free_before (ps[m := q]) MAX_PARTICLES)"
        and f': "free_before ps' MAX_PARTICLES = free_before (ps[m := q]) MAX_PARTICLES -
                   min (count - (i + 1)) (free_before (ps[m := q]) MAX_PARTICLES)"
        and s': "\<And>j. j < MAX_PARTICLES \<Longrightarrow> ps' ! j =
           (if \<not> active (ps[m := q] ! j) \<and> free_before (ps[m := q]) j < count - (i + 1)
            then spawned mousePos (rnd (k + 2 + 2 * free_before (ps[m := q]) j))
                   (rnd (k + 2 + 2 * free_before (ps[m := q]) j + 1))
            else ps[m := q] ! j)"
        by simp_all
      have fM: "free_before ps MAX_PARTICLES = Suc (free_before (ps[m := q]) MAX_PARTICLES)"
        using m "1.prems"(1) aq by (intro free_before_update_less) simp_all
      have "k' = k + 2 * min (count - i) (free_before ps MAX_PARTICLES)"
        using k' fM True by arith
      moreover have "free_before ps' MAX_PARTICLES =
          free_before ps MAX_PARTICLES - min (count - i) (free_before ps MAX_PARTICLES)"
        using f' fM True by arith
      moreover have "ps' ! j =
           (if \<not> active (ps ! j) \<and> free_before ps j < count - i
            then spawned mousePos (rnd (k + 2 * free_before ps j))
                   (rnd (k + 2 * free_before ps j + 1))
            else ps ! j)" if j: "j < MAX_PARTICLES" for j
      proof -
        consider "j < m" | "j = m" | "m < j" by linarith
        then show ?thesis
        proof cases
          case 1
          with m s' [OF j] show ?thesis by simp
        next
          case 2
          with m s' [OF j] "1.prems"(1) aq True show ?thesis
            by (simp add: free_before_0 q_def)
        next
          case 3
          have "free_before ps j = Suc (free_before (ps[m := q]) j)"
            using 3 m "1.prems"(1) aq by (intro free_before_update_less) simp_all
          with 3 s' [OF j] True show ?thesis
            by (auto simp: less_diff_conv)
        qed
      qed
      ultimately show ?thesis
        using l' by blast
    qed
  qed
qed

text \<open>
  Claim C5. A spawn of \<open>count\<close> particles (5 in \<open>Spawn\<close>) raises the number
  of active particles by \<open>count\<close> when at least \<open>count\<close> slots are inactive,
  leaves it unchanged when no slot is inactive, and in general raises it by
  the smaller of \<open>count\<close> and the number of inactive slots, the other
  requests being dropped. Slot \<open>j\<close> is filled exactly when it is inactive and
  fewer than \<open>count\<close> inactive slots precede it in the scan from index 0;
  every other slot is left as it is. A filled slot is active, has life 1,
  velocity \<open>(0, 0)\<close>, colour \<open>(0, 180, 255, 255)\<close> and the position of the
  origin plus two integer offsets between -10 and 10, each from its own call
  of \<open>GetRandomValue(-10, 10)\<close>.
\<close>

theorem spawn_fills_first_free_slots:
  assumes "length ps = MAX_PARTICLES"
    and "\<forall>n. - 10 \<le> rnd n \<and> rnd n \<le> 10"
    and "spawn_from 0 count mousePos rnd k ps = (ps', k')"
    and "j < MAX_PARTICLES"
  shows "active_count ps' = active_count ps + min count (MAX_PARTICLES - active_count ps) \<and>
    ps' ! j =
      (if \<not> active (ps ! j) \<and> free_before ps j < count
       then spawned mousePos (rnd (k + 2 * free_before ps j)) (rnd (k + 2 * free_before ps j + 1))
       else ps ! j) \<and>
    (ps' ! j \<noteq> ps ! j \<longrightarrow>
       \<not> active (ps ! j) \<and> active (ps' ! j) \<and> life (ps' ! j) = 1 \<and>
       velocity (ps' ! j) = \<lparr>vec_x = 0, vec_y = 0\<rparr> \<and>
       color (ps' ! j) = \<lparr>col_r = 0, col_g = 180, col_b = 255, col_a = 255\<rparr> \<and>
       (\<exists>jx jy. - 10 \<le> jx \<and> jx \<le> 10 \<and> - 10 \<le> jy \<and> jy \<le> 10 \<and>
          position (ps' ! j) = \<lparr>vec_x = vec_x mousePos + real_of_int jx,
                                 vec_y = vec_y mousePos + real_of_int jy\<rparr>)) \<and>
    Spawn mousePos rnd k ps = spawn_from 0 5 mousePos rnd k ps"
proof -
  from spawn_from_slots [OF assms(1,3)]
  have len: "length ps' = MAX_PARTICLES"
    and free: "free_before ps' MAX_PARTICLES =
      free_before ps MAX_PARTICLES - min count (free_before ps MAX_PARTICLES)"
    and slot: "ps' ! j =
      (if \<not> active (ps ! j) \<and> free_before ps j < count
       then spawned mousePos (rnd (k + 2 * free_before ps j)) (rnd (k + 2 * free_before ps j + 1))
       else ps ! j)"
    using assms(4) by simp_all
  have "active_count ps' = active_count ps + min count (MAX_PARTICLES - active_count ps)"
    using active_count_free_before [OF assms(1)] active_count_free_before [OF len] free
    by arith
  moreover have "\<not> active (ps ! j) \<and> active (ps' ! j) \<and> life (ps' ! j) = 1 \<and>
       velocity (ps' ! j) = \<lparr>vec_x = 0, vec_y = 0\<rparr> \<and>
       color (ps' ! j) = \<lparr>col_r = 0, col_g = 180, col_b = 255, col_a = 255\<rparr> \<and>
       (\<exists>jx jy. - 10 \<le> jx \<and> jx \<le> 10 \<and> - 10 \<le> jy \<and> jy \<le> 10 \<and>
          position (ps' ! j) = \<lparr>vec_x = vec_x mousePos + real_of_int jx,
                                 vec_y = vec_y mousePos + real_of_int jy\<rparr>)"
    if "ps' ! j \<noteq> ps ! j"
  proof -
    from that slot have c: "\<not> active (ps ! j)"
      and e: "ps' ! j = spawned mousePos (rnd (k + 2 * free_before ps j))
                 (rnd (k + 2 * free_before ps j + 1))"
      by (auto split: if_splits)
    have "\<exists>jx jy. - 10 \<le> jx \<and> jx \<le> 10 \<and> - 10 \<le> jy \<and> jy \<le> 10 \<and>
          position (ps' ! j) = \<lparr>vec_x = vec_x mousePos + real_of_int jx,
                                 vec_y = vec_y mousePos + real_of_int jy\<rparr>"
      using assms(2) unfolding e spawned_def by (intro exI conjI) auto
    with c show ?thesis
      by (simp add: e spawned_def)
  qed
  ultimately show ?thesis
    using slot by (simp add: Spawn_def)
qed

theorem spawn_fills_first_free_slots_witness:
  "\<exists>ps' k'. Spawn \<lparr>vec_x = 500, vec_y = 300\<rparr> example_rnd 0 example_pool = (ps', k') \<and>
     active_count example_pool = 1 \<and> active_count ps' = 6 \<and>
     ps' ! 0 = example_pool ! 0 \<and>
     ps' ! 1 = spawned \<lparr>vec_x = 500, vec_y = 300\<rparr> (- 10) (- 9)"
proof -
  obtain ps' k' where
    s: "spawn_from 0 5 \<lparr>vec_x = 500, vec_y = 300\<rparr> example_rnd 0 example_pool = (ps', k')"
    by (cases "spawn_from 0 5 \<lparr>vec_x = 500, vec_y = 300\<rparr> example_rnd 0 example_pool") blast
  have f1: "free_before example_pool 1 = 0"
    by (simp add: free_before_def example_pool_0 example_particle_simps)
  have a0: "active (example_pool ! 0)"
    by (simp add: example_pool_0 example_particle_simps)
  have i1: "\<not> active (example_pool ! 1)"
    using initial_particles_inactive [of 1] MAX_PARTICLES_pos by (simp add: example_pool_def)
  have r: "example_rnd 0 = - 10" "example_rnd 1 = - 9"
    by (simp_all add: example_rnd_def)
  note t0 = spawn_fills_first_free_slots
    [OF length_example_pool example_rnd_range s MAX_PARTICLES_pos(1)]
  note t1 = spawn_fills_first_free_slots
    [OF length_example_pool example_rnd_range s MAX_PARTICLES_pos(2)]
  from t0 have "active_count ps' =
      active_count example_pool + min 5 (MAX_PARTICLES - active_count example_pool)"
    by (rule conjunct1)
  then have c: "active_count ps' = 6"
    by (simp add: active_count_example_pool MAX_PARTICLES_def)
  from t0 have "ps' ! 0 =
      (if \<not> active (example_pool ! 0) \<and> free_before example_pool 0 < 5
       then spawned \<lparr>vec_x = 500, vec_y = 300\<rparr> (example_rnd (0 + 2 * free_before example_pool 0))
              (example_rnd (0 + 2 * free_before example_pool 0 + 1))
       else example_pool ! 0)"
    by (rule conjunct2 [THEN conjunct1])
  then have z: "ps' ! 0 = example_pool ! 0"
    by (simp add: a0)
  from t1 have "ps' ! 1 =
      (if \<not> active (example_pool ! 1) \<and> free_before example_pool 1 < 5
       then spawned \<lparr>vec_x = 500, vec_y = 300\<rparr> (example_rnd (0 + 2 * free_before example_pool 1))
              (example_rnd (0 + 2 * free_before example_pool 1 + 1))
       else example_pool ! 1)"
    by (rule conjunct2 [THEN conjunct1])
  with i1 f1 r have o: "ps' ! 1 = spawned \<lparr>vec_x = 500, vec_y = 300\<rparr> (- 10) (- 9)"
    by simp
  from s c z o show ?thesis
    by (simp add: Spawn_def active_count_example_pool)
qed

end
